theory Spec2Isabelle
  imports Main
begin

section \<open>Dates and alarm records\<close>

text \<open>
  The alarm monitoring code of \<^verbatim>\<open>src/frontend/src/App.js\<close> (lines 57-67 and 156-213)
  works on JavaScript \<^verbatim>\<open>Date\<close> objects. A \<^verbatim>\<open>Date\<close> holds a time value: a whole number
  of milliseconds since the epoch, or NaN (an "Invalid Date"). A time value is modelled
  as \<open>int option\<close>, with \<open>None\<close> for NaN.

  \<open>TimeClip\<close> is the operation every \<^verbatim>\<open>new Date(number)\<close> applies: NaN stays NaN,
  a number of magnitude above 8.64e15 becomes NaN, anything else is kept.
\<close>

type_synonym time_value = "int option"

definition TimeClip :: "time_value \<Rightarrow> time_value" where
  "TimeClip t =
     (case t of
        None \<Rightarrow> None
      | Some v \<Rightarrow> if \<bar>v\<bar> > 8640000000000000 then None else Some v)"

text \<open>
  An alarm as the backend returns it. The field \<open>event_start\<close> holds the number that
  the \<^verbatim>\<open>Date\<close> constructor reads from \<^verbatim>\<open>alarm.event_start\<close>: \<open>None\<close> (NaN) when the
  property is absent or the string is not a date; a \<^verbatim>\<open>null\<close> reads as the number 0.
  \<open>alarm_minutes_before\<close> is a whole number of minutes; the application sends
  \<^verbatim>\<open>parseInt(minutes)\<close>.
\<close>

record alarm =
  alarm_id :: string
  event_id :: string
  event_title :: string
  event_start :: time_value
  alarm_minutes_before :: int

text \<open>Line 175: \<^verbatim>\<open>const eventTime = new Date(alarm.event_start)\<close>.\<close>

definition eventTime :: "alarm \<Rightarrow> time_value" where
  "eventTime a = TimeClip (event_start a)"

text \<open>
  Line 176: \<^verbatim>\<open>new Date(eventTime.getTime() - alarm.alarm_minutes_before * 60000)\<close>.
  \<^verbatim>\<open>getTime()\<close> of an invalid date is NaN, and NaN minus anything is NaN. On whole
  numbers the double arithmetic is exact wherever the result is a valid time value:
  the product is a multiple of 32, so it is exact below 2^58, and a product of larger
  magnitude leaves the difference outside the range of \<open>TimeClip\<close> either way.
\<close>

definition alarmTime :: "alarm \<Rightarrow> time_value" where
  "alarmTime a =
     TimeClip
       (case eventTime a of
          None \<Rightarrow> None
        | Some t \<Rightarrow> Some (t - alarm_minutes_before a * 60000))"

text \<open>
  \<^verbatim>\<open>now >= d\<close> and \<^verbatim>\<open>now < d\<close> on dates compare the time values; a comparison with NaN
  is false. \<open>now\<close> is \<^verbatim>\<open>new Date()\<close>, always a valid date.
\<close>

definition date_ge :: "int \<Rightarrow> time_value \<Rightarrow> bool" where
  "date_ge now d = (case d of None \<Rightarrow> False | Some v \<Rightarrow> v \<le> now)"

definition date_lt :: "int \<Rightarrow> time_value \<Rightarrow> bool" where
  "date_lt now d = (case d of None \<Rightarrow> False | Some v \<Rightarrow> now < v)"

text \<open>Line 179: the condition \<^verbatim>\<open>now >= alarmTime && now < eventTime\<close>.\<close>

definition alarm_due :: "int \<Rightarrow> alarm \<Rightarrow> bool" where
  "alarm_due now a = (date_ge now (alarmTime a) \<and> date_lt now (eventTime a))"

section \<open>The evaluator as the specification words it\<close>

text \<open>
  The specification (section 4.1) describes \<^verbatim>\<open>evaluate(now, alarm)\<close> with three
  results. \<open>spec_evaluate\<close> follows its three bullets, on exact whole milliseconds,
  with the trigger instant "event.start minus lead minutes"; it is compared with
  \<open>alarm_due\<close>, which is what the code computes.
\<close>

datatype decision = Pending | Fire | Expired

definition trigger_instant :: "int \<Rightarrow> int \<Rightarrow> int" where
  "trigger_instant start lead = start - lead * 60000"

definition spec_evaluate :: "int \<Rightarrow> int \<Rightarrow> int \<Rightarrow> decision \<Rightarrow> bool" where
  "spec_evaluate now start lead d =
     (case d of
        Pending \<Rightarrow> now < trigger_instant start lead
      | Fire \<Rightarrow> trigger_instant start lead \<le> now \<and> now < start
      | Expired \<Rightarrow> start \<le> now)"

section \<open>The world around the component\<close>

text \<open>
  What the calls into the browser and the toast library do is not decided by the
  code; an \<open>env\<close> fixes it for one evaluation pass. A call that throws is a field
  that says so, per alarm or per storage key: the toast call, the \<^verbatim>\<open>Notification\<close>
  constructor and the store's \<^verbatim>\<open>setItem\<close>. Reading the store with \<^verbatim>\<open>getItem\<close> is
  taken not to throw.
\<close>

datatype permission = Default | Granted | Denied

record env =
  audio_current :: bool
  toast_throws :: "alarm \<Rightarrow> bool"
  Notification_in_window :: bool
  Notification_permission :: permission
  Notification_throws :: "alarm \<Rightarrow> bool"
  setItem_throws :: "string \<Rightarrow> bool"

datatype exn = ToastError | NotificationError | StorageError

text \<open>
  The calls the code makes, in the order it makes them. \<open>Call_checkAlarms\<close> and
  \<open>Call_triggerAlarm\<close> record the entry into the two functions; the others are the
  three notification channels.
\<close>

datatype call =
    Call_checkAlarms int
  | Call_triggerAlarm string
  | Audio_play
  | Toast_error string int
  | New_Notification string int

text \<open>
  The state: the two pieces of React state the monitoring code reads, the ref that
  holds the interval handle (\<open>None\<close> is \<^verbatim>\<open>null\<close>), the intervals the browser has
  running (each with the alarm list its callback closed over), the last handle the
  browser gave out, the durable store, and the calls made so far. Two flags are
  React's: whether the component is mounted, and whether React holds the cleanup
  function of the monitoring effect, which it does once the body of the effect has
  returned it (line 62) and until it has called it.
\<close>

record app =
  alarms :: "alarm list"
  isAuthenticated :: bool
  alarmCheckIntervalRef :: "nat option"
  intervals :: "(nat \<times> alarm list) list"
  last_handle :: nat
  localStorage :: "string \<rightharpoonup> string"
  trace :: "call list"
  mounted :: bool
  effect_cleanup :: bool

definition logged :: "call \<Rightarrow> app \<Rightarrow> app" where
  "logged c st = st\<lparr>trace := trace st @ [c]\<rparr>"

section \<open>Notification fan-out\<close>

text \<open>
  Lines 190-213. \<^verbatim>\<open>play()\<close> is called when \<^verbatim>\<open>audioRef.current\<close> is an element; it
  returns a promise, and a rejection goes to the handler given to \<^verbatim>\<open>.catch\<close> after the
  pass, so the pass never sees it. The toast call and the \<^verbatim>\<open>Notification\<close> constructor
  are called bare: an error they throw leaves \<open>triggerAlarm\<close>.
\<close>

definition play_audio :: "env \<Rightarrow> app \<Rightarrow> app" where
  "play_audio e st =
     (if audio_current e then logged Audio_play st else st)"

definition triggerAlarm :: "env \<Rightarrow> alarm \<Rightarrow> app \<Rightarrow> app \<times> exn option" where
  "triggerAlarm e a st =
     (let st1 = play_audio e (logged (Call_triggerAlarm (alarm_id a)) st) in
      if toast_throws e a then (st1, Some ToastError)
      else
        (let st2 = logged (Toast_error (event_title a) (alarm_minutes_before a)) st1 in
         if Notification_in_window e \<and> Notification_permission e = Granted
         then (if Notification_throws e a then (st2, Some NotificationError)
               else (logged (New_Notification (event_title a) (alarm_minutes_before a)) st2,
                     None))
         else (st2, None)))"

section \<open>The evaluation pass\<close>

text \<open>Line 181: the key \<^verbatim>\<open>`alarm_triggered_${alarm.id}`\<close>.\<close>

definition triggeredKey :: "alarm \<Rightarrow> string" where
  "triggeredKey a = ''alarm_triggered_'' @ alarm_id a"

text \<open>
  Line 182: \<^verbatim>\<open>!localStorage.getItem(triggeredKey)\<close>. \<^verbatim>\<open>getItem\<close> gives \<^verbatim>\<open>null\<close> for a key
  that is not there; \<^verbatim>\<open>null\<close> and the empty string are the falsy results.
\<close>

definition truthy :: "string option \<Rightarrow> bool" where
  "truthy v = (case v of None \<Rightarrow> False | Some s \<Rightarrow> s \<noteq> [])"

definition setItem :: "env \<Rightarrow> string \<Rightarrow> string \<Rightarrow> app \<Rightarrow> app \<times> exn option" where
  "setItem e k v st =
     (if setItem_throws e k then (st, Some StorageError)
      else (st\<lparr>localStorage := (localStorage st)(k \<mapsto> v)\<rparr>, None))"

text \<open>Lines 174-187: the body of the \<^verbatim>\<open>forEach\<close> callback, for one alarm.\<close>

definition check_alarm :: "env \<Rightarrow> int \<Rightarrow> alarm \<Rightarrow> app \<Rightarrow> app \<times> exn option" where
  "check_alarm e now a st =
     (if alarm_due now a
      then (if \<not> truthy (localStorage st (triggeredKey a))
            then (case triggerAlarm e a st of
                    (st1, Some x) \<Rightarrow> (st1, Some x)
                  | (st1, None) \<Rightarrow> setItem e (triggeredKey a) ''true'' st1)
            else (st, None))
      else (st, None))"

text \<open>\<^verbatim>\<open>alarms.forEach\<close>: an error thrown by the callback ends the loop.\<close>

fun forEach_alarm :: "env \<Rightarrow> int \<Rightarrow> alarm list \<Rightarrow> app \<Rightarrow> app \<times> exn option" where
  "forEach_alarm e now [] st = (st, None)"
| "forEach_alarm e now (a # as) st =
     (case check_alarm e now a st of
        (st1, Some x) \<Rightarrow> (st1, Some x)
      | (st1, None) \<Rightarrow> forEach_alarm e now as st1)"

text \<open>
  Lines 171-188. \<open>as\<close> is the alarm list of the render that created this
  \<open>checkAlarms\<close>; \<open>now\<close> is what \<^verbatim>\<open>new Date()\<close> reads.
\<close>

definition checkAlarms :: "env \<Rightarrow> int \<Rightarrow> alarm list \<Rightarrow> app \<Rightarrow> app \<times> exn option" where
  "checkAlarms e now as st = forEach_alarm e now as (logged (Call_checkAlarms now) st)"

section \<open>The poll scheduler\<close>

text \<open>
  \<^verbatim>\<open>setInterval\<close> gives out a fresh handle, a whole number above zero, and keeps the
  callback; \<^verbatim>\<open>clearInterval\<close> drops the interval with that handle, if there is one.
\<close>

definition setInterval :: "alarm list \<Rightarrow> app \<Rightarrow> nat \<times> app" where
  "setInterval closure st =
     (let h = Suc (last_handle st) in
      (h, st\<lparr>intervals := intervals st @ [(h, closure)], last_handle := h\<rparr>))"

definition clearInterval :: "nat \<Rightarrow> app \<Rightarrow> app" where
  "clearInterval h st = st\<lparr>intervals := filter (\<lambda>p. fst p \<noteq> h) (intervals st)\<rparr>"

text \<open>
  \<^verbatim>\<open>if (alarmCheckIntervalRef.current) clearInterval(alarmCheckIntervalRef.current)\<close>,
  at lines 158-160 and 63-65: \<^verbatim>\<open>null\<close> and zero are falsy.
\<close>

definition clear_current :: "app \<Rightarrow> app" where
  "clear_current st =
     (case alarmCheckIntervalRef st of
        None \<Rightarrow> st
      | Some h \<Rightarrow> if h \<noteq> 0 then clearInterval h st else st)"

text \<open>Lines 156-169.\<close>

definition startAlarmMonitoring :: "env \<Rightarrow> int \<Rightarrow> app \<Rightarrow> app \<times> exn option" where
  "startAlarmMonitoring e now st =
     (let (h, st1) = setInterval (alarms st) (clear_current st) in
      checkAlarms e now (alarms st) (st1\<lparr>alarmCheckIntervalRef := Some h\<rparr>))"

text \<open>
  Lines 57-67: the effect with dependencies \<^verbatim>\<open>[alarms, isAuthenticated]\<close>. Its body
  is \<open>monitoring_effect\<close>, the function it returns is \<open>monitoring_cleanup\<close>. When a
  dependency changes React runs the cleanup of the previous render, if it holds one,
  then the body. The body returns the cleanup at line 62, after
  \<open>startAlarmMonitoring\<close> has returned: when the pass inside it throws, the error
  leaves the body and no cleanup is returned.
\<close>

definition monitoring_effect :: "env \<Rightarrow> int \<Rightarrow> app \<Rightarrow> app \<times> exn option" where
  "monitoring_effect e now st =
     (if isAuthenticated st \<and> length (alarms st) > 0
      then startAlarmMonitoring e now st
      else (st, None))"

definition monitoring_cleanup :: "app \<Rightarrow> app" where
  "monitoring_cleanup st = clear_current st"

text \<open>
  \<^verbatim>\<open>setAlarms(list)\<close> (lines 111 and 240) puts a new array into the state, which
  re-runs the effect: this is what the specification calls \<^verbatim>\<open>sync\<close>.
  \<^verbatim>\<open>setIsAuthenticated\<close> re-runs it the same way. Both are the re-run of a mounted
  component whose previous effect run returned its cleanup.
\<close>

definition sync :: "env \<Rightarrow> int \<Rightarrow> alarm list \<Rightarrow> app \<Rightarrow> app \<times> exn option" where
  "sync e now new st = monitoring_effect e now (monitoring_cleanup (st\<lparr>alarms := new\<rparr>))"

definition setIsAuthenticated :: "env \<Rightarrow> int \<Rightarrow> bool \<Rightarrow> app \<Rightarrow> app \<times> exn option" where
  "setIsAuthenticated e now b st =
     monitoring_effect e now (monitoring_cleanup (st\<lparr>isAuthenticated := b\<rparr>))"

text \<open>
  The callback of the interval with handle \<open>h\<close> (lines 163-165) calls the
  \<open>checkAlarms\<close> it closed over; an interval that was cleared has no callback left.
\<close>

definition tick :: "env \<Rightarrow> int \<Rightarrow> nat \<Rightarrow> app \<Rightarrow> app \<times> exn option" where
  "tick e now h st =
     (case map_of (intervals st) h of
        None \<Rightarrow> (st, None)
      | Some as \<Rightarrow> checkAlarms e now as st)"

text \<open>
  The component right after it is mounted: the effect has run once on the empty alarm
  list, where the guard of line 58 is false, and has returned its cleanup.

  A reload of the page: the component state, the ref and the browser's intervals are
  gone and the component is mounted afresh; the durable store stays. The record of
  calls is the observer's and stays too.
\<close>

definition reload :: "app \<Rightarrow> app" where
  "reload st =
     st\<lparr>alarms := [], isAuthenticated := False, alarmCheckIntervalRef := None,
        intervals := [], mounted := True, effect_cleanup := True\<rparr>"

definition initial :: "(string \<rightharpoonup> string) \<Rightarrow> app" where
  "initial store =
     \<lparr>alarms = [], isAuthenticated = False, alarmCheckIntervalRef = None,
      intervals = [], last_handle = 0, localStorage = store, trace = [],
      mounted = True, effect_cleanup = True\<rparr>"

text \<open>
  Unmounting the component: React calls the cleanup of the effect if it holds one,
  and nothing of the effect otherwise.
\<close>

definition unmount :: "app \<Rightarrow> app" where
  "unmount st =
     (if effect_cleanup st then monitoring_cleanup st else st)
       \<lparr>mounted := False, effect_cleanup := False\<rparr>"

text \<open>
  How React settles a run of the effect. When the body returned, React holds the
  cleanup it returned. When the body threw, React holds no cleanup for it (the previous
  one has been called already), and an error thrown by an effect makes React unmount
  the tree.
\<close>

definition effect_settled :: "app \<times> exn option \<Rightarrow> app" where
  "effect_settled r =
     (case r of
        (s1, None) \<Rightarrow> s1\<lparr>effect_cleanup := True\<rparr>
      | (s1, Some x) \<Rightarrow> unmount (s1\<lparr>effect_cleanup := False\<rparr>))"

text \<open>
  What can happen to the component, one event at a time. A state update of an
  unmounted component does nothing. An error that escapes the callback of an interval
  is reported by the host; the interval keeps running and the state stays as the pass
  left it. \<open>Teardown\<close> is React unmounting the component.
\<close>

datatype event =
    Sync env int "alarm list"
  | SetAuth env int bool
  | Tick env int nat
  | Teardown
  | Reload

fun step :: "event \<Rightarrow> app \<Rightarrow> app" where
  "step (Sync e now new) st =
     (if \<not> mounted st then st
      else effect_settled
             (if effect_cleanup st then sync e now new st
              else monitoring_effect e now (st\<lparr>alarms := new\<rparr>)))"
| "step (SetAuth e now b) st =
     (if \<not> mounted st then st
      else effect_settled
             (if effect_cleanup st then setIsAuthenticated e now b st
              else monitoring_effect e now (st\<lparr>isAuthenticated := b\<rparr>)))"
| "step (Tick e now h) st = fst (tick e now h st)"
| "step Teardown st = (if mounted st then unmount st else st)"
| "step Reload st = reload st"

definition run :: "event list \<Rightarrow> app \<Rightarrow> app" where
  "run evs st = foldl (\<lambda>s ev. step ev s) st evs"

section \<open>Notions used to state the properties\<close>

text \<open>
  The dedup marker of the alarm identifier \<open>i\<close> is set in a store when the test of
  line 182 finds it so.
\<close>

definition has_fired :: "(string \<rightharpoonup> string) \<Rightarrow> string \<Rightarrow> bool" where
  "has_fired store i = truthy (store (''alarm_triggered_'' @ i))"

text \<open>How many times \<open>triggerAlarm\<close> has been entered for the identifier \<open>i\<close>.\<close>

definition fanouts :: "string \<Rightarrow> app \<Rightarrow> nat" where
  "fanouts i st = count_list (trace st) (Call_triggerAlarm i)"

text \<open>An environment in which no call of the pass throws.\<close>

definition no_throw :: "env \<Rightarrow> bool" where
  "no_throw e =
     ((\<forall>b. \<not> toast_throws e b) \<and> (\<forall>b. \<not> Notification_throws e b)
      \<and> (\<forall>k. \<not> setItem_throws e k))"

text \<open>
  The scheduler's invariant: the browser runs no interval, or exactly one, whose handle
  is the one the ref holds.
\<close>

definition timer_inv :: "app \<Rightarrow> bool" where
  "timer_inv st =
     (case intervals st of
        [] \<Rightarrow> True
      | [p] \<Rightarrow> alarmCheckIntervalRef st = Some (fst p) \<and> fst p \<noteq> 0
      | _ \<Rightarrow> False)"

text \<open>The events that are timer ticks.\<close>

fun is_tick :: "event \<Rightarrow> bool" where
  "is_tick (Tick e now h) = True"
| "is_tick _ = False"

section \<open>Concrete alarms, environments and states\<close>

text \<open>
  Scenario A of the specification: the event starts at 10:00:00 (36000000 ms into the
  day of the epoch), the lead is 15 minutes.
\<close>

definition scenario_A :: alarm where
  "scenario_A =
     \<lparr>alarm_id = ''a1'', event_id = ''e1'', event_title = ''Standup'',
      event_start = Some 36000000, alarm_minutes_before = 15\<rparr>"

text \<open>
  An event in October 2026 with a lead of 150000000000 minutes, which the form of the
  application accepts (line 119 asks for a minimum of 1 only).
\<close>

definition far_lead :: alarm where
  "far_lead =
     \<lparr>alarm_id = ''a2'', event_id = ''e2'', event_title = ''Review'',
      event_start = Some 1793000000000, alarm_minutes_before = 150000000000\<rparr>"

text \<open>
  An environment where the audio element is mounted, notifications are permitted and
  no call throws.
\<close>

definition quiet_env :: env where
  "quiet_env =
     \<lparr>audio_current = True, toast_throws = (\<lambda>a. False), Notification_in_window = True,
      Notification_permission = Granted, Notification_throws = (\<lambda>a. False),
      setItem_throws = (\<lambda>k. False)\<rparr>"

text \<open>
  The component after a login and a first load of Scenario A's alarm before its window
  opened: monitoring runs on interval 1, nothing has fired. \<open>marked\<close> is the same with
  the alarm's marker in the store.
\<close>

definition armed :: app where
  "armed =
     \<lparr>alarms = [scenario_A], isAuthenticated = True, alarmCheckIntervalRef = Some 1,
      intervals = [(1, [scenario_A])], last_handle = 1, localStorage = Map.empty,
      trace = [], mounted = True, effect_cleanup = True\<rparr>"

definition marked :: app where
  "marked = armed\<lparr>localStorage := [''alarm_triggered_a1'' \<mapsto> ''true'']\<rparr>"

text \<open>Two malformed alarms: a lead of zero minutes, and no start instant.\<close>

definition zero_lead :: alarm where
  "zero_lead = scenario_A\<lparr>alarm_id := ''z1'', alarm_minutes_before := 0\<rparr>"

definition no_start :: alarm where
  "no_start = scenario_A\<lparr>alarm_id := ''n1'', event_start := None\<rparr>"

text \<open>A second alarm on the same morning, with a lead of 30 minutes.\<close>

definition second_alarm :: alarm where
  "second_alarm =
     \<lparr>alarm_id = ''b1'', event_id = ''e9'', event_title = ''Retro'',
      event_start = Some 36000000, alarm_minutes_before = 30\<rparr>"

text \<open>
  Environments in which one call throws: the store's write for the key of \<open>a1\<close>, the
  \<^verbatim>\<open>Notification\<close> constructor, the toast call.
\<close>

definition storage_full_env :: env where
  "storage_full_env = quiet_env\<lparr>setItem_throws := (\<lambda>k. k = ''alarm_triggered_a1'')\<rparr>"

definition constructor_throws_env :: env where
  "constructor_throws_env = quiet_env\<lparr>Notification_throws := (\<lambda>a. True)\<rparr>"

definition toast_throws_env :: env where
  "toast_throws_env = quiet_env\<lparr>toast_throws := (\<lambda>a. True)\<rparr>"

text \<open>
  The armed state with the empty string stored under the marker key of \<open>a1\<close>, and the
  component before any login.
\<close>

definition empty_marker :: app where
  "empty_marker = armed\<lparr>localStorage := [''alarm_triggered_a1'' \<mapsto> '''']\<rparr>"

definition logged_out :: app where
  "logged_out = initial Map.empty"

section \<open>The firing window\<close>

lemma alarm_due_iff:
  "alarm_due now a \<longleftrightarrow>
     (\<exists>s. eventTime a = Some s \<and> \<bar>s - alarm_minutes_before a * 60000\<bar> \<le> 8640000000000000
        \<and> s - alarm_minutes_before a * 60000 \<le> now \<and> now < s)"
  by (auto simp: alarm_due_def alarmTime_def date_ge_def date_lt_def TimeClip_def
      split: option.splits if_splits)

lemma eventTime_range: "eventTime a = Some s \<Longrightarrow> \<bar>s\<bar> \<le> 8640000000000000"
  by (auto simp: eventTime_def TimeClip_def split: option.splits if_splits)

text \<open>
  Claim C1, as amended. For an alarm with a valid start instant \<open>s\<close> and a lead of at
  least one minute whose trigger instant is itself a time value a date can hold (not
  more than 8.64e15 ms before the epoch), and for every instant \<open>now\<close>: exactly one of
  Pending, Fire and Expired describes \<open>now\<close>; the condition the code tests holds
  exactly in the Fire range \<open>trigger_instant \<le> now < s\<close> and fails exactly in the
  other two; at the trigger instant the code fires, at the start instant it does not
  and the state is Expired.
\<close>

theorem evaluate_partition:
  assumes "eventTime a = Some s" and "1 \<le> alarm_minutes_before a"
    and "- 8640000000000000 \<le> trigger_instant s (alarm_minutes_before a)"
  shows "(\<exists>!d. spec_evaluate now s (alarm_minutes_before a) d)
       \<and> (alarm_due now a \<longleftrightarrow> spec_evaluate now s (alarm_minutes_before a) Fire)
       \<and> (\<not> alarm_due now a \<longleftrightarrow>
            spec_evaluate now s (alarm_minutes_before a) Pending
          \<or> spec_evaluate now s (alarm_minutes_before a) Expired)
       \<and> alarm_due (trigger_instant s (alarm_minutes_before a)) a
       \<and> \<not> alarm_due s a
       \<and> spec_evaluate s s (alarm_minutes_before a) Expired"
proof -
  let ?m = "alarm_minutes_before a"
  let ?t = "trigger_instant s ?m"
  have lt: "?t < s" using assms(2) by (simp add: trigger_instant_def)
  have rng: "\<bar>s - ?m * 60000\<bar> \<le> 8640000000000000"
    using eventTime_range[OF assms(1)] assms(2,3) by (simp add: trigger_instant_def)
  have due: "\<And>n. alarm_due n a \<longleftrightarrow> ?t \<le> n \<and> n < s"
    using assms(1) rng by (auto simp: alarm_due_iff trigger_instant_def)
  have one: "\<exists>!d. spec_evaluate now s ?m d"
  proof (cases "now < ?t")
    case True
    then have "spec_evaluate now s ?m Pending" by (simp add: spec_evaluate_def)
    moreover have "\<And>d. spec_evaluate now s ?m d \<Longrightarrow> d = Pending"
      using True lt by (case_tac d) (auto simp: spec_evaluate_def)
    ultimately show ?thesis by blast
  next
    case False
    show ?thesis
    proof (cases "now < s")
      case True
      then have "spec_evaluate now s ?m Fire" using False by (simp add: spec_evaluate_def)
      moreover have "\<And>d. spec_evaluate now s ?m d \<Longrightarrow> d = Fire"
        using True False by (case_tac d) (auto simp: spec_evaluate_def)
      ultimately show ?thesis by blast
    next
      case F2: False
      then have "spec_evaluate now s ?m Expired" by (simp add: spec_evaluate_def)
      moreover have "\<And>d. spec_evaluate now s ?m d \<Longrightarrow> d = Expired"
        using F2 False by (case_tac d) (auto simp: spec_evaluate_def)
      ultimately show ?thesis by blast
    qed
  qed
  have fire: "alarm_due now a \<longleftrightarrow> spec_evaluate now s ?m Fire"
    by (simp add: due spec_evaluate_def)
  have rest: "\<not> alarm_due now a \<longleftrightarrow>
      spec_evaluate now s ?m Pending \<or> spec_evaluate now s ?m Expired"
    using lt by (auto simp: due spec_evaluate_def)
  have at_trigger: "alarm_due ?t a" using lt by (simp add: due)
  have at_start: "\<not> alarm_due s a" by (simp add: due)
  have exp: "spec_evaluate s s ?m Expired" by (simp add: spec_evaluate_def)
  from one fire rest at_trigger at_start exp show ?thesis by blast
qed

text \<open>
  Scenario A: one second before 09:45:00 the alarm is Pending and the code does not
  fire, at 09:45:00 the code fires, at 10:00:00 the alarm is Expired and the code does
  not fire.
\<close>

theorem evaluate_partition_scenario_A:
  "eventTime scenario_A = Some 36000000 \<and> 1 \<le> alarm_minutes_before scenario_A
   \<and> trigger_instant 36000000 15 = 35100000
   \<and> \<not> alarm_due 35099000 scenario_A \<and> spec_evaluate 35099000 36000000 15 Pending
   \<and> alarm_due 35100000 scenario_A
   \<and> \<not> alarm_due 36000000 scenario_A \<and> spec_evaluate 36000000 36000000 15 Expired"
proof -
  have e: "eventTime scenario_A = Some 36000000"
    by (simp add: scenario_A_def eventTime_def TimeClip_def)
  have m: "alarm_minutes_before scenario_A = 15" by (simp add: scenario_A_def)
  have t: "trigger_instant 36000000 15 = 35100000" by (simp add: trigger_instant_def)
  have h2: "1 \<le> alarm_minutes_before scenario_A" by (simp add: m)
  have h3: "- 8640000000000000 \<le> trigger_instant 36000000 (alarm_minutes_before scenario_A)"
    by (simp add: m t)
  note p = evaluate_partition [OF e h2 h3]
  have pend: "spec_evaluate 35099000 36000000 15 Pending"
    by (simp add: spec_evaluate_def t)
  have "\<not> alarm_due 35099000 scenario_A"
    using p [of 35099000] pend unfolding m by blast
  moreover have "alarm_due 35100000 scenario_A"
    using p [of 0] unfolding m t by blast
  moreover have "\<not> alarm_due 36000000 scenario_A \<and> spec_evaluate 36000000 36000000 15 Expired"
    using p [of 0] unfolding m by blast
  ultimately show ?thesis using e h2 t pend by simp
qed

text \<open>
  Claim C1 as it is written fails for a lead so long that the trigger instant leaves
  the range of \<^verbatim>\<open>Date\<close>: line 176 then builds an invalid date, and the comparison
  \<^verbatim>\<open>now >= alarmTime\<close> is false at every instant. One millisecond before the start the
  specification's evaluator says Fire; the code does not fire.
\<close>

theorem evaluate_far_lead_counterexample:
  "eventTime far_lead = Some 1793000000000 \<and> 1 \<le> alarm_minutes_before far_lead
   \<and> spec_evaluate 1792999999999 1793000000000 (alarm_minutes_before far_lead) Fire
   \<and> \<not> alarm_due 1792999999999 far_lead"
  by (simp add: far_lead_def eventTime_def alarmTime_def TimeClip_def alarm_due_def
      date_ge_def date_lt_def spec_evaluate_def trigger_instant_def)

section \<open>What one pass changes\<close>

lemma fanouts_logged [simp]:
  "fanouts i (logged c st) = fanouts i st + (if c = Call_triggerAlarm i then 1 else 0)"
  by (simp add: fanouts_def logged_def)

lemma fanouts_store [simp]: "fanouts i (st\<lparr>localStorage := m\<rparr>) = fanouts i st"
  by (simp add: fanouts_def)

lemma logged_fields [simp]:
  "alarms (logged c st) = alarms st"
  "isAuthenticated (logged c st) = isAuthenticated st"
  "alarmCheckIntervalRef (logged c st) = alarmCheckIntervalRef st"
  "intervals (logged c st) = intervals st"
  "last_handle (logged c st) = last_handle st"
  "localStorage (logged c st) = localStorage st"
  by (simp_all add: logged_def)

lemma play_audio_fields [simp]:
  "alarms (play_audio e st) = alarms st"
  "isAuthenticated (play_audio e st) = isAuthenticated st"
  "alarmCheckIntervalRef (play_audio e st) = alarmCheckIntervalRef st"
  "intervals (play_audio e st) = intervals st"
  "last_handle (play_audio e st) = last_handle st"
  "localStorage (play_audio e st) = localStorage st"
  "fanouts i (play_audio e st) = fanouts i st"
  by (simp_all add: play_audio_def)

lemma logged_flags [simp]:
  "mounted (logged c st) = mounted st"
  "effect_cleanup (logged c st) = effect_cleanup st"
  by (simp_all add: logged_def)

lemma play_audio_flags [simp]:
  "mounted (play_audio e st) = mounted st"
  "effect_cleanup (play_audio e st) = effect_cleanup st"
  by (simp_all add: play_audio_def)

lemma triggerAlarm_flags:
  assumes "triggerAlarm e a st = (st1, x)"
  shows "mounted st1 = mounted st \<and> effect_cleanup st1 = effect_cleanup st"
  using assms by (auto simp: triggerAlarm_def Let_def split: if_splits)

lemma triggerAlarm_fields:
  assumes "triggerAlarm e a st = (st1, x)"
  shows "alarms st1 = alarms st" "isAuthenticated st1 = isAuthenticated st"
    "alarmCheckIntervalRef st1 = alarmCheckIntervalRef st" "intervals st1 = intervals st"
    "last_handle st1 = last_handle st" "localStorage st1 = localStorage st"
    "fanouts i st1 = fanouts i st + (if alarm_id a = i then 1 else 0)"
  using assms by (auto simp: triggerAlarm_def Let_def split: if_splits)

lemma triggerAlarm_no_throw:
  "no_throw e \<Longrightarrow> snd (triggerAlarm e a st) = None"
  by (simp add: triggerAlarm_def no_throw_def Let_def)

lemma triggeredKey_inj [simp]: "triggeredKey a = ''alarm_triggered_'' @ i \<longleftrightarrow> alarm_id a = i"
  by (simp add: triggeredKey_def)

lemma check_alarm_skip:
  "\<not> alarm_due now a \<or> has_fired (localStorage st) (alarm_id a)
     \<Longrightarrow> check_alarm e now a st = (st, None)"
  by (auto simp: check_alarm_def has_fired_def triggeredKey_def)

lemma check_alarm_fields:
  assumes "check_alarm e now a st = (st1, x)"
  shows "alarms st1 = alarms st" "isAuthenticated st1 = isAuthenticated st"
    "alarmCheckIntervalRef st1 = alarmCheckIntervalRef st" "intervals st1 = intervals st"
    "last_handle st1 = last_handle st"
  using assms
  by (auto simp: check_alarm_def setItem_def split: if_splits prod.splits option.splits
      dest: triggerAlarm_fields)

lemma check_alarm_flags:
  assumes "check_alarm e now a st = (st1, x)"
  shows "mounted st1 = mounted st \<and> effect_cleanup st1 = effect_cleanup st"
  using assms
  by (auto simp: check_alarm_def setItem_def split: if_splits prod.splits option.splits
      dest: triggerAlarm_flags)

lemma check_alarm_store:
  assumes "check_alarm e now a st = (st1, x)" and "localStorage st1 k \<noteq> localStorage st k"
  shows "k = triggeredKey a \<and> alarm_due now a \<and> \<not> truthy (localStorage st k)
       \<and> localStorage st1 k = Some ''true''"
  using assms
  by (auto simp: check_alarm_def setItem_def split: if_splits prod.splits option.splits
      dest: triggerAlarm_fields(6))

lemma check_alarm_other:
  assumes "check_alarm e now a st = (st1, x)" and "alarm_id a \<noteq> i"
  shows "fanouts i st1 = fanouts i st"
    and "has_fired (localStorage st1) i = has_fired (localStorage st) i"
proof -
  show "fanouts i st1 = fanouts i st"
    using assms
    by (auto simp: check_alarm_def setItem_def split: if_splits prod.splits option.splits
        dest: triggerAlarm_fields(7)[where i = i])
  have "localStorage st1 (''alarm_triggered_'' @ i) = localStorage st (''alarm_triggered_'' @ i)"
    using check_alarm_store[OF assms(1), of "''alarm_triggered_'' @ i"] assms(2)
    by (auto simp: triggeredKey_def)
  then show "has_fired (localStorage st1) i = has_fired (localStorage st) i"
    by (simp add: has_fired_def)
qed

lemma check_alarm_fires:
  assumes "check_alarm e now a st = (st1, x)" and "alarm_due now a"
    and "\<not> has_fired (localStorage st) (alarm_id a)"
  shows "fanouts (alarm_id a) st1 = fanouts (alarm_id a) st + 1"
    and "no_throw e \<Longrightarrow> x = None \<and> has_fired (localStorage st1) (alarm_id a)"
proof -
  show "fanouts (alarm_id a) st1 = fanouts (alarm_id a) st + 1"
    using assms
    by (auto simp: check_alarm_def setItem_def has_fired_def triggeredKey_def
        split: if_splits prod.splits option.splits
        dest: triggerAlarm_fields(7)[where i = "alarm_id a"])
  assume nt: "no_throw e"
  obtain s2 y where t: "triggerAlarm e a st = (s2, y)" by (cases "triggerAlarm e a st")
  with triggerAlarm_no_throw[OF nt, of a st] have y: "y = None" by simp
  have k: "\<not> setItem_throws e (triggeredKey a)" using nt by (simp add: no_throw_def)
  show "x = None \<and> has_fired (localStorage st1) (alarm_id a)"
    using assms t y k
    by (auto simp: check_alarm_def setItem_def has_fired_def triggeredKey_def truthy_def)
qed

lemma forEach_fired:
  assumes "has_fired (localStorage st) i" and "forEach_alarm e now as st = (st1, x)"
  shows "fanouts i st1 = fanouts i st \<and> has_fired (localStorage st1) i"
  using assms
proof (induction as arbitrary: st)
  case Nil
  then show ?case by simp
next
  case (Cons a as)
  obtain s2 y where c: "check_alarm e now a st = (s2, y)" by (cases "check_alarm e now a st")
  have keep: "fanouts i s2 = fanouts i st \<and> has_fired (localStorage s2) i"
  proof (cases "alarm_id a = i")
    case True
    with Cons.prems(1) c check_alarm_skip[of now a st e] show ?thesis by auto
  next
    case False
    with check_alarm_other[OF c False] Cons.prems(1) show ?thesis by simp
  qed
  show ?case
  proof (cases y)
    case None
    with c Cons.prems(2) have "forEach_alarm e now as s2 = (st1, x)" by simp
    with Cons.IH[of s2] keep show ?thesis by simp
  next
    case (Some z)
    with c Cons.prems(2) have "st1 = s2" by simp
    with keep show ?thesis by simp
  qed
qed

lemma forEach_fires_once:
  assumes "no_throw e" and "a \<in> set as" and "alarm_due now a"
    and "\<not> has_fired (localStorage st) (alarm_id a)"
    and "forEach_alarm e now as st = (st1, x)"
  shows "fanouts (alarm_id a) st1 = fanouts (alarm_id a) st + 1
       \<and> has_fired (localStorage st1) (alarm_id a)"
  using assms(2,4,5)
proof (induction as arbitrary: st)
  case Nil
  then show ?case by simp
next
  case (Cons b as)
  obtain s2 y where c: "check_alarm e now b st = (s2, y)" by (cases "check_alarm e now b st")
  show ?case
  proof (cases "alarm_id b = alarm_id a \<and> alarm_due now b")
    case True
    then have nf: "\<not> has_fired (localStorage st) (alarm_id b)" using Cons.prems(2) by simp
    from check_alarm_fires[OF c _ nf] True assms(1)
    have s2: "fanouts (alarm_id a) s2 = fanouts (alarm_id a) st + 1"
      "y = None" "has_fired (localStorage s2) (alarm_id a)" by auto
    with c Cons.prems(3) have "forEach_alarm e now as s2 = (st1, x)" by simp
    from forEach_fired[OF s2(3) this] s2(1) show ?thesis by simp
  next
    case False
    then have ne: "b \<noteq> a" using assms(3) by auto
    then have mem: "a \<in> set as" using Cons.prems(1) by simp
    have keep: "fanouts (alarm_id a) s2 = fanouts (alarm_id a) st
              \<and> \<not> has_fired (localStorage s2) (alarm_id a)"
    proof (cases "alarm_id b = alarm_id a")
      case True
      with False have "\<not> alarm_due now b" by simp
      with c check_alarm_skip[of now b st e] Cons.prems(2) show ?thesis by auto
    next
      case F: False
      with check_alarm_other[OF c F] Cons.prems(2) show ?thesis by simp
    qed
    have y: "y = None"
    proof (cases "alarm_due now b \<and> \<not> has_fired (localStorage st) (alarm_id b)")
      case True
      with check_alarm_fires(2)[OF c _ _ assms(1)] show ?thesis by simp
    next
      case False
      with c check_alarm_skip[of now b st e] show ?thesis by auto
    qed
    with c Cons.prems(3) have "forEach_alarm e now as s2 = (st1, x)" by simp
    with Cons.IH[OF mem _ this] keep show ?thesis by simp
  qed
qed


lemma forEach_fields:
  assumes "forEach_alarm e now as st = (st1, x)"
  shows "alarms st1 = alarms st \<and> isAuthenticated st1 = isAuthenticated st
       \<and> alarmCheckIntervalRef st1 = alarmCheckIntervalRef st \<and> intervals st1 = intervals st
       \<and> last_handle st1 = last_handle st"
  using assms
proof (induction as arbitrary: st)
  case Nil
  then show ?case by simp
next
  case (Cons a as)
  obtain s2 y where c: "check_alarm e now a st = (s2, y)" by (cases "check_alarm e now a st")
  note f = check_alarm_fields[OF c]
  show ?case
  proof (cases y)
    case None
    with c Cons.prems have "forEach_alarm e now as s2 = (st1, x)" by simp
    from Cons.IH[OF this] f show ?thesis by simp
  next
    case (Some z)
    with c Cons.prems have "st1 = s2" by simp
    with f show ?thesis by simp
  qed
qed

lemma forEach_flags:
  assumes "forEach_alarm e now as st = (st1, x)"
  shows "mounted st1 = mounted st \<and> effect_cleanup st1 = effect_cleanup st"
  using assms
proof (induction as arbitrary: st)
  case Nil
  then show ?case by simp
next
  case (Cons a as)
  obtain s2 y where c: "check_alarm e now a st = (s2, y)" by (cases "check_alarm e now a st")
  note f = check_alarm_flags[OF c]
  show ?case
  proof (cases y)
    case None
    with c Cons.prems have "forEach_alarm e now as s2 = (st1, x)" by simp
    from Cons.IH[OF this] f show ?thesis by simp
  next
    case (Some z)
    with c Cons.prems have "st1 = s2" by simp
    with f show ?thesis by simp
  qed
qed

lemma checkAlarms_flags:
  assumes "checkAlarms e now as st = (st1, x)"
  shows "mounted st1 = mounted st \<and> effect_cleanup st1 = effect_cleanup st"
  using forEach_flags[OF assms[unfolded checkAlarms_def]] by simp

lemma checkAlarms_fields:
  assumes "checkAlarms e now as st = (st1, x)"
  shows "alarms st1 = alarms st \<and> isAuthenticated st1 = isAuthenticated st
       \<and> alarmCheckIntervalRef st1 = alarmCheckIntervalRef st \<and> intervals st1 = intervals st
       \<and> last_handle st1 = last_handle st"
  using forEach_fields[OF assms[unfolded checkAlarms_def]] by simp

lemma checkAlarms_fired:
  assumes "has_fired (localStorage st) i" and "checkAlarms e now as st = (st1, x)"
  shows "fanouts i st1 = fanouts i st \<and> has_fired (localStorage st1) i"
  using forEach_fired[of "logged (Call_checkAlarms now) st" i e now as st1 x] assms
  by (simp add: checkAlarms_def)

lemma checkAlarms_fires_once:
  assumes "no_throw e" and "a \<in> set as" and "alarm_due now a"
    and "\<not> has_fired (localStorage st) (alarm_id a)"
    and "checkAlarms e now as st = (st1, x)"
  shows "fanouts (alarm_id a) st1 = fanouts (alarm_id a) st + 1
       \<and> has_fired (localStorage st1) (alarm_id a)"
  using forEach_fires_once[OF assms(1,2,3), of "logged (Call_checkAlarms now) st" st1 x] assms(4,5)
  by (simp add: checkAlarms_def)

lemma clear_current_fields [simp]:
  "alarms (clear_current st) = alarms st"
  "isAuthenticated (clear_current st) = isAuthenticated st"
  "alarmCheckIntervalRef (clear_current st) = alarmCheckIntervalRef st"
  "last_handle (clear_current st) = last_handle st"
  "localStorage (clear_current st) = localStorage st"
  "trace (clear_current st) = trace st"
  "fanouts i (clear_current st) = fanouts i st"
  "mounted (clear_current st) = mounted st"
  "effect_cleanup (clear_current st) = effect_cleanup st"
  by (simp_all add: clear_current_def clearInterval_def fanouts_def split: option.splits)

lemma startAlarmMonitoring_eq:
  "startAlarmMonitoring e now st =
     checkAlarms e now (alarms st)
       ((clear_current st)\<lparr>intervals := intervals (clear_current st) @ [(Suc (last_handle st), alarms st)],
          last_handle := Suc (last_handle st),
          alarmCheckIntervalRef := Some (Suc (last_handle st))\<rparr>)"
  by (simp add: startAlarmMonitoring_def setInterval_def Let_def)

lemma fanouts_upd [simp]:
  "fanouts i (st\<lparr>intervals := iv\<rparr>) = fanouts i st"
  "fanouts i (st\<lparr>last_handle := lh\<rparr>) = fanouts i st"
  "fanouts i (st\<lparr>alarmCheckIntervalRef := r\<rparr>) = fanouts i st"
  "fanouts i (st\<lparr>alarms := al\<rparr>) = fanouts i st"
  "fanouts i (st\<lparr>isAuthenticated := b\<rparr>) = fanouts i st"
  "fanouts i (st\<lparr>mounted := b\<rparr>) = fanouts i st"
  "fanouts i (st\<lparr>effect_cleanup := b\<rparr>) = fanouts i st"
  by (simp_all add: fanouts_def)

lemma startAlarmMonitoring_fired:
  assumes "has_fired (localStorage st) i" and "startAlarmMonitoring e now st = (st1, x)"
  shows "fanouts i st1 = fanouts i st \<and> has_fired (localStorage st1) i"
  using checkAlarms_fired[OF _ assms(2)[unfolded startAlarmMonitoring_eq]] assms(1) by simp

lemma monitoring_effect_fired:
  assumes "has_fired (localStorage st) i" and "monitoring_effect e now st = (st1, x)"
  shows "fanouts i st1 = fanouts i st \<and> has_fired (localStorage st1) i"
  using assms startAlarmMonitoring_fired[of st i e now st1 x]
  by (auto simp: monitoring_effect_def split: if_splits)

lemma unmount_keeps [simp]:
  "localStorage (unmount st) = localStorage st"
  "trace (unmount st) = trace st"
  "fanouts i (unmount st) = fanouts i st"
  by (simp_all add: unmount_def monitoring_cleanup_def)

lemma effect_settled_keeps [simp]:
  "localStorage (effect_settled r) = localStorage (fst r)"
  "trace (effect_settled r) = trace (fst r)"
  "fanouts i (effect_settled r) = fanouts i (fst r)"
  by (simp_all add: effect_settled_def split: prod.splits option.splits)

lemma effect_fired:
  assumes "has_fired (localStorage st) i"
  shows "fanouts i (fst (monitoring_effect e now st)) = fanouts i st
       \<and> has_fired (localStorage (fst (monitoring_effect e now st))) i"
  using monitoring_effect_fired[OF assms, of e now "fst (monitoring_effect e now st)"
      "snd (monitoring_effect e now st)"]
  by simp

lemma step_fired:
  assumes "has_fired (localStorage st) i"
  shows "fanouts i (step ev st) = fanouts i st \<and> has_fired (localStorage (step ev st)) i"
proof (cases ev)
  case (Sync e now new)
  have a: "has_fired (localStorage (monitoring_cleanup (st\<lparr>alarms := new\<rparr>))) i"
    and b: "has_fired (localStorage (st\<lparr>alarms := new\<rparr>)) i"
    using assms by (simp_all add: monitoring_cleanup_def)
  from effect_fired[OF a, of e now] effect_fired[OF b, of e now] assms
  show ?thesis using Sync by (simp add: sync_def monitoring_cleanup_def)
next
  case (SetAuth e now b)
  have a: "has_fired (localStorage (monitoring_cleanup (st\<lparr>isAuthenticated := b\<rparr>))) i"
    and c: "has_fired (localStorage (st\<lparr>isAuthenticated := b\<rparr>)) i"
    using assms by (simp_all add: monitoring_cleanup_def)
  from effect_fired[OF a, of e now] effect_fired[OF c, of e now] assms
  show ?thesis using SetAuth by (simp add: setIsAuthenticated_def monitoring_cleanup_def)
next
  case (Tick e now h)
  show ?thesis
  proof (cases "map_of (intervals st) h")
    case None
    with Tick assms show ?thesis by (simp add: tick_def)
  next
    case (Some as)
    from checkAlarms_fired[OF assms, of e now as "fst (checkAlarms e now as st)"
        "snd (checkAlarms e now as st)"]
    show ?thesis using Tick Some by (simp add: tick_def)
  qed
next
  case Teardown
  with assms show ?thesis by simp
next
  case Reload
  with assms show ?thesis by (simp add: reload_def fanouts_def)
qed

lemma run_fired:
  "has_fired (localStorage st) i \<Longrightarrow>
     fanouts i (run evs st) = fanouts i st \<and> has_fired (localStorage (run evs st)) i"
proof (induction evs arbitrary: st)
  case Nil
  then show ?case by (simp add: run_def)
next
  case (Cons ev evs)
  from step_fired[OF Cons.prems, of ev] Cons.IH[of "step ev st"]
  show ?case by (simp add: run_def)
qed

lemma forEach_append:
  "forEach_alarm e now (xs @ ys) st =
     (case forEach_alarm e now xs st of
        (s1, Some x) \<Rightarrow> (s1, Some x)
      | (s1, None) \<Rightarrow> forEach_alarm e now ys s1)"
  by (induction xs arbitrary: st) (auto split: prod.splits option.splits)

lemma falsy_iff: "\<not> truthy v \<longleftrightarrow> v = None \<or> v = Some []"
  by (auto simp: truthy_def split: option.splits)

lemma forEach_store:
  assumes "forEach_alarm e now as st = (st1, x)"
    and "localStorage st1 k \<noteq> localStorage st k"
  shows "localStorage st1 k = Some ''true''
       \<and> (\<exists>a\<in>set as. k = triggeredKey a \<and> alarm_due now a \<and> \<not> truthy (localStorage st k))"
  using assms
proof (induction as arbitrary: st)
  case Nil
  then show ?case by simp
next
  case (Cons b as)
  obtain s2 y where c: "check_alarm e now b st = (s2, y)" by (cases "check_alarm e now b st")
  have tail: "y = None \<Longrightarrow> forEach_alarm e now as s2 = (st1, x)"
    using c Cons.prems(1) by simp
  have stop: "y \<noteq> None \<Longrightarrow> st1 = s2"
    using c Cons.prems(1) by auto
  show ?case
  proof (cases "localStorage s2 k = localStorage st k")
    case True
    then have ch: "localStorage st1 k \<noteq> localStorage s2 k" using Cons.prems(2) by simp
    then have "y = None" using stop by (cases y) auto
    from Cons.IH[OF tail[OF this] ch] True show ?thesis by auto
  next
    case False
    from check_alarm_store[OF c False]
    have h: "k = triggeredKey b" "alarm_due now b" "\<not> truthy (localStorage st k)"
      "localStorage s2 k = Some ''true''" by blast+
    have "localStorage st1 k = Some ''true''"
    proof (cases "localStorage st1 k = localStorage s2 k")
      case True
      with h(4) show ?thesis by simp
    next
      case F: False
      then have "y = None" using stop by (cases y) auto
      from Cons.IH[OF tail[OF this] F] show ?thesis by simp
    qed
    with h show ?thesis by auto
  qed
qed

lemma check_alarm_trace:
  "\<exists>ext. trace (fst (check_alarm e now a st)) = trace st @ ext"
  by (auto simp: check_alarm_def triggerAlarm_def play_audio_def logged_def setItem_def Let_def
      split: if_splits prod.splits option.splits)

lemma forEach_trace:
  "\<exists>ext. trace (fst (forEach_alarm e now as st)) = trace st @ ext"
proof (induction as arbitrary: st)
  case Nil
  then show ?case by simp
next
  case (Cons a as)
  obtain s2 y where c: "check_alarm e now a st = (s2, y)" by (cases "check_alarm e now a st")
  from check_alarm_trace[of e now a st] c obtain ext1 where e1: "trace s2 = trace st @ ext1"
    by auto
  show ?case
  proof (cases y)
    case None
    from Cons.IH[of s2] obtain ext2 where
      "trace (fst (forEach_alarm e now as s2)) = trace s2 @ ext2" by blast
    with c None e1 show ?thesis by simp
  next
    case (Some z)
    with c e1 show ?thesis by simp
  qed
qed

lemma checkAlarms_trace:
  "\<exists>ext. trace (fst (checkAlarms e now as st)) = trace st @ Call_checkAlarms now # ext"
  using forEach_trace[of e now as "logged (Call_checkAlarms now) st"]
  by (auto simp: checkAlarms_def logged_def)

lemma check_alarm_unmarked:
  assumes "check_alarm e now b st = (s2, y)"
    and "\<not> has_fired (localStorage st) i" and "\<not> has_fired (localStorage s2) i"
  shows "y = None \<longrightarrow> fanouts i s2 = fanouts i st"
proof (cases "alarm_id b = i")
  case False
  with check_alarm_other(1)[OF assms(1) False] show ?thesis by simp
next
  case True
  show ?thesis
  proof (cases "alarm_due now b")
    case False
    with assms(1) check_alarm_skip[of now b st e] show ?thesis by auto
  next
    case due: True
    obtain s3 z where t: "triggerAlarm e b st = (s3, z)" by (cases "triggerAlarm e b st")
    have st3: "localStorage s3 = localStorage st" using triggerAlarm_fields(6)[OF t] .
    show ?thesis
    proof
      assume "y = None"
      with assms(1,2) due True t
      have "s2 = s3\<lparr>localStorage := (localStorage s3)(triggeredKey b \<mapsto> ''true'')\<rparr>"
        by (auto simp: check_alarm_def has_fired_def triggeredKey_def setItem_def
            split: if_splits option.splits)
      then have "has_fired (localStorage s2) i"
        using True by (simp add: has_fired_def triggeredKey_def truthy_def)
      with assms(3) show "fanouts i s2 = fanouts i st" by simp
    qed
  qed
qed

lemma check_alarm_marks:
  assumes "check_alarm e now b st = (s2, y)"
    and "\<not> has_fired (localStorage st) i" and "has_fired (localStorage s2) i"
  shows "fanouts i s2 = fanouts i st + 1"
proof -
  have id: "alarm_id b = i"
    using check_alarm_other(2)[OF assms(1), of i] assms(2,3) by auto
  have due: "alarm_due now b"
    using check_alarm_skip[of now b st e] assms by auto
  from check_alarm_fires(1)[OF assms(1) due] assms(2) id show ?thesis by simp
qed

lemma forEach_marks_once:
  assumes "\<not> has_fired (localStorage st) i" and "forEach_alarm e now as st = (st1, x)"
    and "has_fired (localStorage st1) i"
  shows "fanouts i st1 = fanouts i st + 1"
  using assms
proof (induction as arbitrary: st)
  case Nil
  then show ?case by simp
next
  case (Cons b as)
  obtain s2 y where c: "check_alarm e now b st = (s2, y)" by (cases "check_alarm e now b st")
  show ?case
  proof (cases "has_fired (localStorage s2) i")
    case True
    note one = check_alarm_marks[OF c Cons.prems(1) True]
    show ?thesis
    proof (cases y)
      case None
      with c Cons.prems(2) have "forEach_alarm e now as s2 = (st1, x)" by simp
      from forEach_fired[OF True this] one show ?thesis by simp
    next
      case (Some z)
      with c Cons.prems(2) have "st1 = s2" by simp
      with one show ?thesis by simp
    qed
  next
    case False
    have y: "y = None"
    proof (cases y)
      case (Some z)
      with c Cons.prems(2) have "st1 = s2" by simp
      with False Cons.prems(3) show ?thesis by simp
    qed simp
    with c Cons.prems(2) have r: "forEach_alarm e now as s2 = (st1, x)" by simp
    from check_alarm_unmarked[OF c Cons.prems(1) False] y
    have "fanouts i s2 = fanouts i st" by simp
    with Cons.IH[OF False r Cons.prems(3)] show ?thesis by simp
  qed
qed

lemma tick_marks_once:
  assumes "\<not> has_fired (localStorage st) i"
    and "has_fired (localStorage (fst (tick e now h st))) i"
  shows "fanouts i (fst (tick e now h st)) = fanouts i st + 1"
proof (cases "map_of (intervals st) h")
  case None
  with assms show ?thesis by (simp add: tick_def)
next
  case (Some as)
  let ?s0 = "logged (Call_checkAlarms now) st"
  have t: "tick e now h st = forEach_alarm e now as ?s0"
    using Some by (simp add: tick_def checkAlarms_def)
  have n: "\<not> has_fired (localStorage ?s0) i" using assms(1) by simp
  from forEach_marks_once[OF n, of e now as "fst (tick e now h st)" "snd (tick e now h st)"]
    assms(2) t
  show ?thesis by simp
qed

section \<open>The scheduler's invariant\<close>

lemma timer_inv_clear: "timer_inv st \<Longrightarrow> intervals (clear_current st) = []"
  by (auto simp: timer_inv_def clear_current_def clearInterval_def
      split: list.splits option.splits)

lemma timer_inv_length: "timer_inv st \<Longrightarrow> length (intervals st) \<le> 1"
  by (auto simp: timer_inv_def split: list.splits)

lemma timer_inv_fields:
  "intervals s1 = intervals st \<Longrightarrow> alarmCheckIntervalRef s1 = alarmCheckIntervalRef st
     \<Longrightarrow> timer_inv s1 = timer_inv st"
  by (simp add: timer_inv_def split: list.splits)

lemma startAlarmMonitoring_timer:
  assumes "timer_inv st" and "startAlarmMonitoring e now st = (st1, x)"
  shows "intervals st1 = [(Suc (last_handle st), alarms st)]
       \<and> alarmCheckIntervalRef st1 = Some (Suc (last_handle st))"
  using checkAlarms_fields[OF assms(2)[unfolded startAlarmMonitoring_eq]]
    timer_inv_clear[OF assms(1)]
  by simp

lemma monitoring_effect_inv:
  assumes "timer_inv st" and "monitoring_effect e now st = (st1, x)"
  shows "timer_inv st1"
proof (cases "isAuthenticated st \<and> length (alarms st) > 0")
  case True
  with assms(2) have "startAlarmMonitoring e now st = (st1, x)"
    by (simp add: monitoring_effect_def)
  from startAlarmMonitoring_timer[OF assms(1) this] show ?thesis
    by (simp add: timer_inv_def)
next
  case False
  with assms show ?thesis by (auto simp: monitoring_effect_def)
qed

lemma cleanup_inv: "timer_inv st \<Longrightarrow> timer_inv (monitoring_cleanup st)"
  by (simp add: monitoring_cleanup_def timer_inv_clear timer_inv_def)

lemma timer_inv_upd [simp]:
  "timer_inv (st\<lparr>alarms := al\<rparr>) = timer_inv st"
  "timer_inv (st\<lparr>isAuthenticated := b\<rparr>) = timer_inv st"
  "timer_inv (st\<lparr>mounted := b\<rparr>) = timer_inv st"
  "timer_inv (st\<lparr>effect_cleanup := b\<rparr>) = timer_inv st"
  by (simp_all add: timer_inv_def split: list.splits)

lemma unmount_inv: "timer_inv st \<Longrightarrow> timer_inv (unmount st)"
  by (simp add: unmount_def cleanup_inv)

lemma effect_inv:
  "timer_inv st \<Longrightarrow> timer_inv (fst (monitoring_effect e now st))"
  using monitoring_effect_inv[of st e now "fst (monitoring_effect e now st)"
      "snd (monitoring_effect e now st)"]
  by simp

lemma effect_settled_inv: "timer_inv (fst r) \<Longrightarrow> timer_inv (effect_settled r)"
  by (auto simp: effect_settled_def unmount_inv split: prod.splits option.splits)

lemma step_inv:
  assumes "timer_inv st"
  shows "timer_inv (step ev st)"
proof (cases ev)
  case (Sync e now new)
  have "timer_inv (fst (sync e now new st))"
    unfolding sync_def using assms by (intro effect_inv cleanup_inv) simp
  moreover have "timer_inv (fst (monitoring_effect e now (st\<lparr>alarms := new\<rparr>)))"
    using assms by (intro effect_inv) simp
  ultimately show ?thesis using Sync assms by (simp add: effect_settled_inv)
next
  case (SetAuth e now b)
  have "timer_inv (fst (setIsAuthenticated e now b st))"
    unfolding setIsAuthenticated_def using assms by (intro effect_inv cleanup_inv) simp
  moreover have "timer_inv (fst (monitoring_effect e now (st\<lparr>isAuthenticated := b\<rparr>)))"
    using assms by (intro effect_inv) simp
  ultimately show ?thesis using SetAuth assms by (simp add: effect_settled_inv)
next
  case (Tick e now h)
  show ?thesis
  proof (cases "map_of (intervals st) h")
    case None
    with Tick assms show ?thesis by (simp add: tick_def)
  next
    case (Some as)
    have f: "intervals (fst (checkAlarms e now as st)) = intervals st
        \<and> alarmCheckIntervalRef (fst (checkAlarms e now as st)) = alarmCheckIntervalRef st"
      using checkAlarms_fields[of e now as st "fst (checkAlarms e now as st)"
          "snd (checkAlarms e now as st)"]
      by simp
    have "timer_inv (fst (checkAlarms e now as st)) = timer_inv st"
      by (rule timer_inv_fields) (simp_all add: f)
    with Tick Some assms show ?thesis by (simp add: tick_def)
  qed
next
  case Teardown
  with assms show ?thesis by (simp add: unmount_inv)
next
  case Reload
  then show ?thesis by (simp add: reload_def timer_inv_def)
qed

lemma run_inv: "timer_inv st \<Longrightarrow> timer_inv (run evs st)"
proof (induction evs arbitrary: st)
  case Nil
  then show ?case by (simp add: run_def)
next
  case (Cons ev evs)
  from Cons.IH[OF step_inv[OF Cons.prems, of ev]] show ?case by (simp add: run_def)
qed

lemma initial_inv: "timer_inv (initial store)"
  by (simp add: initial_def timer_inv_def)

lemma reachable_inv: "timer_inv (run evs (initial store))"
  by (rule run_inv[OF initial_inv])

lemma tick_no_interval: "intervals st = [] \<Longrightarrow> tick e now h st = (st, None)"
  by (simp add: tick_def)

lemma run_ticks_idle:
  "intervals st = [] \<Longrightarrow> list_all is_tick evs \<Longrightarrow> run evs st = st"
proof (induction evs)
  case Nil
  then show ?case by (simp add: run_def)
next
  case (Cons ev evs)
  from Cons.prems(2) obtain e now h where ev: "ev = Tick e now h" by (cases ev) auto
  have "step ev st = st" using Cons.prems(1) by (simp add: ev tick_no_interval)
  with Cons show ?case by (simp add: run_def)
qed

lemma sync_empty:
  "sync e now [] st = (clear_current (st\<lparr>alarms := []\<rparr>), None)"
  by (simp add: sync_def monitoring_effect_def monitoring_cleanup_def)

lemma step_cleanup_held:
  assumes "mounted st \<longrightarrow> effect_cleanup st"
  shows "mounted (step ev st) \<longrightarrow> effect_cleanup (step ev st)"
proof (cases ev)
  case (Sync e now new)
  with assms show ?thesis
    by (auto simp: effect_settled_def unmount_def split: prod.splits option.splits)
next
  case (SetAuth e now b)
  with assms show ?thesis
    by (auto simp: effect_settled_def unmount_def split: prod.splits option.splits)
next
  case (Tick e now h)
  show ?thesis
  proof (cases "map_of (intervals st) h")
    case None
    with Tick assms show ?thesis by (simp add: tick_def)
  next
    case (Some as)
    from checkAlarms_flags[of e now as st "fst (checkAlarms e now as st)"
        "snd (checkAlarms e now as st)"]
    show ?thesis using Tick Some assms by (simp add: tick_def)
  qed
next
  case Teardown
  with assms show ?thesis by (simp add: unmount_def)
next
  case Reload
  then show ?thesis by (simp add: reload_def)
qed

lemma reachable_cleanup_held:
  "mounted (run evs (initial store)) \<longrightarrow> effect_cleanup (run evs (initial store))"
proof -
  have "(mounted st \<longrightarrow> effect_cleanup st)
      \<Longrightarrow> mounted (run evs st) \<longrightarrow> effect_cleanup (run evs st)" for st
  proof (induction evs arbitrary: st)
    case Nil
    then show ?case by (simp add: run_def)
  next
    case (Cons ev evs)
    from Cons.IH[OF step_cleanup_held[OF Cons.prems, of ev]] show ?case by (simp add: run_def)
  qed
  then show ?thesis by (simp add: initial_def)
qed

text \<open>
  While the component is mounted React holds the cleanup, and then an empty alarm list
  and a teardown both leave no interval running; ticks after that change nothing.
\<close>

lemma stops_while_mounted:
  assumes "mounted (run evs (initial store))"
  shows "intervals (step Teardown (run evs (initial store))) = []
       \<and> intervals (step (Sync e now []) (run evs (initial store))) = []
       \<and> trace (step Teardown (run evs (initial store))) = trace (run evs (initial store))
       \<and> trace (step (Sync e now []) (run evs (initial store))) = trace (run evs (initial store))
       \<and> (list_all is_tick ticks \<longrightarrow>
            run ticks (step Teardown (run evs (initial store)))
              = step Teardown (run evs (initial store))
          \<and> run ticks (step (Sync e now []) (run evs (initial store)))
              = step (Sync e now []) (run evs (initial store)))"
proof -
  let ?st = "run evs (initial store)"
  have held: "effect_cleanup ?st" using assms reachable_cleanup_held[of evs store] by simp
  have inv: "timer_inv ?st" by (rule reachable_inv)
  have inv2: "timer_inv (?st\<lparr>alarms := []\<rparr>)" using inv by simp
  have a: "intervals (step Teardown ?st) = []"
    using assms held timer_inv_clear[OF inv] by (simp add: unmount_def monitoring_cleanup_def)
  have b: "intervals (step (Sync e now []) ?st) = []"
    using assms held timer_inv_clear[OF inv2] by (simp add: sync_empty effect_settled_def)
  have c: "trace (step Teardown ?st) = trace ?st" using assms by simp
  have d: "trace (step (Sync e now []) ?st) = trace ?st"
    using assms held by (simp add: sync_empty)
  from a b c d run_ticks_idle[OF a] run_ticks_idle[OF b] show ?thesis by simp
qed

section \<open>Evaluating concrete runs\<close>

lemmas ev_defs = quiet_env_def armed_def marked_def scenario_A_def run_def tick_def
  checkAlarms_def check_alarm_def triggerAlarm_def play_audio_def logged_def setItem_def
  triggeredKey_def truthy_def has_fired_def fanouts_def alarm_due_def alarmTime_def
  eventTime_def TimeClip_def date_ge_def date_lt_def sync_def setIsAuthenticated_def
  monitoring_effect_def monitoring_cleanup_def clear_current_def clearInterval_def
  startAlarmMonitoring_def setInterval_def reload_def initial_def no_throw_def
  unmount_def effect_settled_def

lemmas ev2_defs = zero_lead_def no_start_def second_alarm_def storage_full_env_def
  empty_marker_def

lemmas ev3_defs = constructor_throws_env_def toast_throws_env_def logged_out_def

section \<open>Monotone decisions and malformed alarms\<close>

text \<open>
  Claim C6. If the code's condition holds for an alarm at an instant \<open>t\<close> (the
  decision is Fire), then at every instant \<open>t'\<close> from \<open>t\<close> on the condition holds
  again or the alarm is Expired, and the alarm is not Pending; the condition at \<open>t'\<close>
  is again exactly the Fire range. The decision depends on the instant and the alarm
  only (\<open>alarm_due\<close> takes no state), so a repeated call returns what it returned.
\<close>

theorem fire_monotone:
  assumes "alarm_due t a" and "t \<le> t'"
  shows "\<exists>s. eventTime a = Some s
           \<and> (alarm_due t' a \<or> spec_evaluate t' s (alarm_minutes_before a) Expired)
           \<and> \<not> spec_evaluate t' s (alarm_minutes_before a) Pending
           \<and> (alarm_due t' a \<longleftrightarrow> spec_evaluate t' s (alarm_minutes_before a) Fire)"
proof -
  from assms(1) obtain s where s: "eventTime a = Some s"
    and r: "\<bar>s - alarm_minutes_before a * 60000\<bar> \<le> 8640000000000000"
    and lo: "s - alarm_minutes_before a * 60000 \<le> t" and hi: "t < s"
    unfolding alarm_due_iff by blast
  have due: "alarm_due t' a \<longleftrightarrow> s - alarm_minutes_before a * 60000 \<le> t' \<and> t' < s"
    using s r by (auto simp: alarm_due_iff)
  have "(alarm_due t' a \<or> spec_evaluate t' s (alarm_minutes_before a) Expired)
      \<and> \<not> spec_evaluate t' s (alarm_minutes_before a) Pending
      \<and> (alarm_due t' a \<longleftrightarrow> spec_evaluate t' s (alarm_minutes_before a) Fire)"
    using lo assms(2) by (auto simp: due spec_evaluate_def trigger_instant_def)
  with s show ?thesis by blast
qed

text \<open>
  Scenario A again: the alarm fires at 09:45:00; at 10:00:00 it is Expired, not
  Pending, and the code does not fire.
\<close>

theorem fire_monotone_scenario_A:
  "alarm_due 35100000 scenario_A \<and> (35100000::int) \<le> 36000000
   \<and> spec_evaluate 36000000 36000000 15 Expired
   \<and> \<not> spec_evaluate 36000000 36000000 15 Pending
   \<and> \<not> alarm_due 36000000 scenario_A"
proof -
  have d: "alarm_due 35100000 scenario_A" by (simp add: ev_defs)
  have e: "eventTime scenario_A = Some 36000000" by (simp add: ev_defs)
  have m: "alarm_minutes_before scenario_A = 15" by (simp add: scenario_A_def)
  have n: "\<not> spec_evaluate 36000000 36000000 15 Fire"
    by (simp add: spec_evaluate_def)
  from fire_monotone [OF d, of 36000000] e m n d show ?thesis by auto
qed

lemma malformed_not_due:
  "alarm_minutes_before a \<le> 0 \<or> eventTime a = None \<Longrightarrow> \<not> alarm_due now a"
  by (auto simp: alarm_due_iff)

text \<open>
  Claim C7. For an alarm whose lead is zero or negative, or whose start instant is
  missing or not a date (the constructor at line 175 gives an invalid date), at
  every instant and in every environment and state: the condition of line 179 is false,
  the callback leaves the state as it was and throws nothing (no fan-out, no marker),
  and the pass over a list that holds the alarm is the pass over the list without it.
\<close>

theorem malformed_alarm_skipped:
  assumes "alarm_minutes_before a \<le> 0 \<or> eventTime a = None"
  shows "\<not> alarm_due now a
       \<and> check_alarm e now a st = (st, None)
       \<and> checkAlarms e now (xs @ a # ys) st = checkAlarms e now (xs @ ys) st"
proof -
  have nd: "\<And>n. \<not> alarm_due n a" using assms by (rule malformed_not_due)
  have skip: "\<And>s. check_alarm e now a s = (s, None)"
    using nd by (simp add: check_alarm_skip)
  have "\<And>s. forEach_alarm e now (xs @ a # ys) s = forEach_alarm e now (xs @ ys) s"
    by (simp add: forEach_append skip split: prod.splits option.splits)
  then show ?thesis using nd skip by (simp add: checkAlarms_def)
qed

text \<open>
  A list of a zero-lead alarm, an alarm without a start and Scenario A's alarm, at
  09:45:05: the pass ends normally, fires \<open>a1\<close> once and the other two never.
\<close>

theorem malformed_alarm_skipped_examples:
  "alarm_minutes_before zero_lead \<le> 0 \<and> eventTime no_start = None
   \<and> \<not> alarm_due 36000000 zero_lead \<and> \<not> alarm_due 35105000 no_start
   \<and> fanouts ''a1'' (fst (checkAlarms quiet_env 35105000 [zero_lead, no_start, scenario_A] armed)) = 1
   \<and> snd (checkAlarms quiet_env 35105000 [zero_lead, no_start, scenario_A] armed) = None
   \<and> fanouts ''z1'' (fst (checkAlarms quiet_env 35105000 [zero_lead, no_start, scenario_A] armed)) = 0
   \<and> fanouts ''n1'' (fst (checkAlarms quiet_env 35105000 [zero_lead, no_start, scenario_A] armed)) = 0"
proof -
  have z: "alarm_minutes_before zero_lead \<le> 0" by (simp add: ev2_defs ev_defs)
  have n: "eventTime no_start = None" by (simp add: ev2_defs ev_defs)
  have a: "checkAlarms quiet_env 35105000 [zero_lead, no_start, scenario_A] armed
         = checkAlarms quiet_env 35105000 [no_start, scenario_A] armed"
    using malformed_alarm_skipped [of zero_lead 35105000 quiet_env armed "[]" "[no_start, scenario_A]"] z
    by simp
  have b: "checkAlarms quiet_env 35105000 [no_start, scenario_A] armed
         = checkAlarms quiet_env 35105000 [scenario_A] armed"
    using malformed_alarm_skipped [of no_start 35105000 quiet_env armed "[]" "[scenario_A]"] n
    by simp
  have c: "fanouts i (fst (checkAlarms quiet_env 35105000 [scenario_A] armed))
         = (if i = ''a1'' then 1 else 0)
       \<and> snd (checkAlarms quiet_env 35105000 [scenario_A] armed) = None" for i
    by (simp add: ev_defs)
  have d: "\<not> alarm_due 36000000 zero_lead"
    using malformed_alarm_skipped [of zero_lead 36000000 quiet_env armed "[]" "[]"] z by simp
  have d2: "\<not> alarm_due 35105000 no_start"
    using malformed_alarm_skipped [of no_start 35105000 quiet_env armed "[]" "[]"] n by simp
  show ?thesis using z n d d2 c by (simp add: a b)
qed

section \<open>Dedup marker\<close>

text \<open>
  Claim C2. Once the dedup marker of an alarm identifier is in the store, no later
  event (an effect run after a change of the alarm list or of the login state, a tick
  of any interval, at any instant and in any environment, a teardown, a reload of the
  page, which keeps the store) enters \<open>triggerAlarm\<close> for that identifier again, and
  the marker stays. In particular two ticks with no reload between them, the first of
  which records the marker, enter \<open>triggerAlarm\<close> for the identifier exactly once in
  total; and the first tick does record it for an alarm of the list that is inside its
  window and unmarked, when no call of that tick throws.
\<close>

theorem dedup_idempotent:
  "(has_fired (localStorage st) i \<longrightarrow>
      fanouts i (run evs st) = fanouts i st \<and> has_fired (localStorage (run evs st)) i)
   \<and> (\<not> has_fired (localStorage st) i
        \<and> has_fired (localStorage (fst (tick e1 now1 h st))) i \<longrightarrow>
      fanouts i (run [Tick e1 now1 h, Tick e2 now2 h] st) = fanouts i st + 1)
   \<and> (no_throw e1 \<and> map_of (intervals st) h = Some as \<and> a \<in> set as \<and> alarm_due now1 a
        \<and> \<not> has_fired (localStorage st) (alarm_id a) \<longrightarrow>
      has_fired (localStorage (fst (tick e1 now1 h st))) (alarm_id a)
      \<and> fanouts (alarm_id a) (run [Tick e1 now1 h, Tick e2 now2 h] st)
        = fanouts (alarm_id a) st + 1)"
proof -
  have two: "fanouts j (run [Tick e1 now1 h, Tick e2 now2 h] st) = fanouts j st + 1"
    if "\<not> has_fired (localStorage st) j"
      and "has_fired (localStorage (fst (tick e1 now1 h st))) j" for j
  proof -
    from step_fired[OF that(2), of "Tick e2 now2 h"] tick_marks_once[OF that]
    show ?thesis by (simp add: run_def)
  qed
  have rec: "has_fired (localStorage (fst (tick e1 now1 h st))) (alarm_id a)"
    if h: "no_throw e1 \<and> map_of (intervals st) h = Some as \<and> a \<in> set as \<and> alarm_due now1 a
        \<and> \<not> has_fired (localStorage st) (alarm_id a)"
  proof -
    have t1: "fst (tick e1 now1 h st) = fst (checkAlarms e1 now1 as st)"
      using h by (simp add: tick_def)
    from checkAlarms_fires_once[of e1 a as now1 st "fst (checkAlarms e1 now1 as st)"
        "snd (checkAlarms e1 now1 as st)"] h
    show ?thesis by (simp add: t1)
  qed
  show ?thesis using run_fired[of st i evs] two rec by blast
qed

text \<open>
  Scenario C, then Scenario B: with the marker of \<open>a1\<close> stored, a tick, a reload, a
  new login and load, and another tick inside the window fire nothing; from the armed
  state without a marker, ticks at 09:45:05 and 09:45:15 fire once.
\<close>

theorem dedup_idempotent_scenarios:
  "has_fired (localStorage marked) ''a1''
   \<and> fanouts ''a1''
        (run [Tick quiet_env 35115000 1, Reload, SetAuth quiet_env 35120000 True,
              Sync quiet_env 35125000 [scenario_A], Tick quiet_env 35135000 2] marked) = 0
   \<and> no_throw quiet_env \<and> map_of (intervals armed) 1 = Some [scenario_A]
   \<and> alarm_due 35105000 scenario_A \<and> \<not> has_fired (localStorage armed) ''a1''
   \<and> has_fired (localStorage (fst (tick quiet_env 35105000 1 armed))) ''a1''
   \<and> fanouts ''a1'' (run [Tick quiet_env 35105000 1, Tick quiet_env 35115000 1] armed) = 1"
proof -
  have m: "has_fired (localStorage marked) ''a1''" by (simp add: ev_defs)
  have f0: "fanouts ''a1'' marked = 0" by (simp add: ev_defs)
  have nt: "no_throw quiet_env" by (simp add: ev_defs)
  have iv: "map_of (intervals armed) 1 = Some [scenario_A]" by (simp add: armed_def)
  have due: "alarm_due 35105000 scenario_A" by (simp add: ev_defs)
  have nf: "\<not> has_fired (localStorage armed) ''a1''" by (simp add: ev_defs)
  have id: "alarm_id scenario_A = ''a1''" by (simp add: scenario_A_def)
  have fa: "fanouts ''a1'' armed = 0" by (simp add: ev_defs)
  have p1: "fanouts ''a1''
        (run [Tick quiet_env 35115000 1, Reload, SetAuth quiet_env 35120000 True,
              Sync quiet_env 35125000 [scenario_A], Tick quiet_env 35135000 2] marked) = 0"
    using dedup_idempotent [where st = marked and i = "''a1''"] m f0 by simp
  have p3: "has_fired (localStorage (fst (tick quiet_env 35105000 1 armed))) ''a1''"
    using dedup_idempotent [where st = armed and ?e1.0 = quiet_env and h = 1
        and as = "[scenario_A]" and a = scenario_A and ?now1.0 = 35105000] nt iv due nf id
    by simp
  have p2: "fanouts ''a1'' (run [Tick quiet_env 35105000 1, Tick quiet_env 35115000 1] armed) = 1"
    using dedup_idempotent [where st = armed and i = "''a1''" and ?e1.0 = quiet_env and h = 1
        and ?now1.0 = 35105000 and ?e2.0 = quiet_env and ?now2.0 = 35115000] nf p3 fa
    by simp
  from m p1 nt iv due nf p3 p2 show ?thesis by simp
qed

section \<open>Thrown errors\<close>

text \<open>
  Claim C3 asks that an error thrown by one notification channel stops neither the
  other channels nor the marker write. The code handles the audio channel's failure
  (\<^verbatim>\<open>.catch\<close> at line 193) and skips the OS notification when it is unsupported or not
  permitted (line 206), but an error thrown by the \<^verbatim>\<open>Notification\<close> constructor or by
  the toast call leaves \<open>triggerAlarm\<close> and the callback before line 184. Evaluated
  for Scenario A's alarm at 09:45:05: when the constructor throws, audio and toast have
  run, the pass ends with the error, the marker is not written, and a second tick
  fires the alarm again; when the toast call throws, the OS notification is not
  attempted either.
\<close>

theorem channel_error_loses_marker:
  "alarm_due 35105000 scenario_A
   \<and> snd (tick constructor_throws_env 35105000 1 armed) = Some NotificationError
   \<and> trace (fst (tick constructor_throws_env 35105000 1 armed))
       = [Call_checkAlarms 35105000, Call_triggerAlarm ''a1'', Audio_play,
          Toast_error ''Standup'' 15]
   \<and> \<not> has_fired (localStorage (fst (tick constructor_throws_env 35105000 1 armed))) ''a1''
   \<and> fanouts ''a1''
        (run [Tick constructor_throws_env 35105000 1, Tick constructor_throws_env 35115000 1] armed) = 2
   \<and> snd (tick toast_throws_env 35105000 1 armed) = Some ToastError
   \<and> trace (fst (tick toast_throws_env 35105000 1 armed))
       = [Call_checkAlarms 35105000, Call_triggerAlarm ''a1'', Audio_play]
   \<and> \<not> has_fired (localStorage (fst (tick toast_throws_env 35105000 1 armed))) ''a1''"
  by (simp add: ev_defs ev3_defs toast_throws_env_def)

text \<open>
  Claim C4, as amended. When the write of the dedup marker throws for an alarm that
  is inside its window and unmarked (its fan-out having completed), the error ends the
  pass at that alarm: the alarms listed before it have been evaluated, whatever is
  listed after it is not evaluated in this pass, the fan-out for the alarm has run
  once, its marker stays unset, and the running interval is left as it was, so that
  its next tick starts a new pass.
\<close>

theorem storage_error_ends_pass:
  assumes "checkAlarms e now pre st = (s1, None)"
    and "alarm_due now a" and "\<not> has_fired (localStorage s1) (alarm_id a)"
    and "setItem_throws e (triggeredKey a)"
    and "\<not> toast_throws e a" and "\<not> Notification_throws e a"
  shows "checkAlarms e now (pre @ a # rest) st = (fst (triggerAlarm e a s1), Some StorageError)
       \<and> localStorage (fst (triggerAlarm e a s1)) = localStorage s1
       \<and> fanouts (alarm_id a) (fst (triggerAlarm e a s1)) = fanouts (alarm_id a) s1 + 1
       \<and> intervals (fst (triggerAlarm e a s1)) = intervals st
       \<and> (map_of (intervals st) h = Some as \<longrightarrow>
            tick e2 now2 h (fst (triggerAlarm e a s1))
              = checkAlarms e2 now2 as (fst (triggerAlarm e a s1)))"
proof -
  obtain s2 y where t: "triggerAlarm e a s1 = (s2, y)" by (cases "triggerAlarm e a s1")
  have y: "y = None" using t assms(5,6) by (auto simp: triggerAlarm_def Let_def split: if_splits)
  have one: "check_alarm e now a s1 = (s2, Some StorageError)"
    using assms(2,3,4) t y
    by (simp add: check_alarm_def has_fired_def triggeredKey_def setItem_def)
  have "checkAlarms e now (pre @ a # rest) st = (s2, Some StorageError)"
    using assms(1) one by (simp add: checkAlarms_def forEach_append)
  moreover have "intervals s1 = intervals st" using checkAlarms_fields[OF assms(1)] by simp
  ultimately show ?thesis using t triggerAlarm_fields[OF t] by (simp add: tick_def)
qed

text \<open>
  Scenario A's alarm followed by a second alarm, at 09:45:05, when the store refuses
  the key of \<open>a1\<close>.
\<close>

theorem storage_error_ends_pass_scenario:
  "checkAlarms storage_full_env 35105000 [] armed = (logged (Call_checkAlarms 35105000) armed, None)
   \<and> snd (checkAlarms storage_full_env 35105000 [scenario_A, second_alarm] armed) = Some StorageError
   \<and> \<not> has_fired (localStorage (fst (checkAlarms storage_full_env 35105000 [scenario_A, second_alarm] armed))) ''a1''
   \<and> fanouts ''a1'' (fst (checkAlarms storage_full_env 35105000 [scenario_A, second_alarm] armed)) = 1"
proof -
  let ?s1 = "logged (Call_checkAlarms 35105000) armed"
  have h1: "checkAlarms storage_full_env 35105000 [] armed = (?s1, None)"
    by (simp add: checkAlarms_def)
  have h2: "alarm_due 35105000 scenario_A" by (simp add: ev_defs)
  have h3: "\<not> has_fired (localStorage ?s1) (alarm_id scenario_A)" by (simp add: ev_defs)
  have h4: "setItem_throws storage_full_env (triggeredKey scenario_A)"
    by (simp add: ev_defs ev2_defs)
  have h5: "\<not> toast_throws storage_full_env scenario_A" by (simp add: ev_defs ev2_defs)
  have h6: "\<not> Notification_throws storage_full_env scenario_A" by (simp add: ev_defs ev2_defs)
  note p = storage_error_ends_pass [OF h1 h2 h3 h4 h5 h6, of "[second_alarm]"]
  have id: "alarm_id scenario_A = ''a1''" by (simp add: scenario_A_def)
  have f0: "fanouts ''a1'' ?s1 = 0" by (simp add: ev_defs)
  from p h3 have "snd (checkAlarms storage_full_env 35105000 [scenario_A, second_alarm] armed) = Some StorageError"
    and "\<not> has_fired (localStorage (fst (checkAlarms storage_full_env 35105000 [scenario_A, second_alarm] armed))) ''a1''"
    and "fanouts ''a1'' (fst (checkAlarms storage_full_env 35105000 [scenario_A, second_alarm] armed)) = 1"
    using id f0 by simp_all
  with h1 show ?thesis by simp
qed

text \<open>
  Claim C4 as it is written fails: the second alarm is inside its window and unmarked,
  and the store would accept its key, but after the write for \<open>a1\<close> throws the pass
  ends with the error and the second alarm is not evaluated; without the failure the
  same pass fires it.
\<close>

theorem storage_error_skips_rest:
  "alarm_due 35105000 second_alarm \<and> \<not> has_fired (localStorage armed) ''b1''
   \<and> setItem_throws storage_full_env (triggeredKey scenario_A)
   \<and> \<not> setItem_throws storage_full_env (triggeredKey second_alarm)
   \<and> snd (checkAlarms storage_full_env 35105000 [scenario_A, second_alarm] armed) = Some StorageError
   \<and> fanouts ''b1'' (fst (checkAlarms storage_full_env 35105000 [scenario_A, second_alarm] armed)) = 0
   \<and> fanouts ''b1'' (fst (checkAlarms quiet_env 35105000 [scenario_A, second_alarm] armed)) = 1"
  by (simp add: ev_defs ev2_defs)

section \<open>What a pass may change\<close>

text \<open>
  Claim C10, as amended. A pass leaves the alarm list, the login state, the interval
  ref and the running intervals as they were. A key of the durable store whose value
  differs after the pass now holds \<open>true\<close>, is the key \<open>alarm_triggered_\<close> followed by
  the identifier of an alarm of the list whose firing window contains \<open>now\<close>, and was
  unset or held the empty string before. So no key is removed and no other key is
  written.
\<close>

theorem pass_frame:
  assumes "checkAlarms e now as st = (st1, x)"
  shows "alarms st1 = alarms st \<and> isAuthenticated st1 = isAuthenticated st
       \<and> alarmCheckIntervalRef st1 = alarmCheckIntervalRef st
       \<and> intervals st1 = intervals st \<and> last_handle st1 = last_handle st
       \<and> (\<forall>k. localStorage st1 k \<noteq> localStorage st k \<longrightarrow>
             localStorage st1 k = Some ''true''
           \<and> (\<exists>a\<in>set as. k = triggeredKey a \<and> alarm_due now a
                 \<and> (localStorage st k = None \<or> localStorage st k = Some '''')))"
proof -
  have f: "forEach_alarm e now as (logged (Call_checkAlarms now) st) = (st1, x)"
    using assms by (simp add: checkAlarms_def)
  have "\<And>k. localStorage st1 k \<noteq> localStorage st k \<Longrightarrow>
          localStorage st1 k = Some ''true''
        \<and> (\<exists>a\<in>set as. k = triggeredKey a \<and> alarm_due now a
              \<and> (localStorage st k = None \<or> localStorage st k = Some ''''))"
    using forEach_store[OF f] by (simp add: falsy_iff)
  with checkAlarms_fields[OF assms] show ?thesis by blast
qed

text \<open>
  A pass over two alarms at 09:45:05: the alarm list of the state is as before, the
  marker of \<open>a1\<close> is written, the key \<open>userEmail\<close> is untouched.
\<close>

theorem pass_frame_scenario:
  "alarms (fst (checkAlarms quiet_env 35105000 [scenario_A, second_alarm] armed)) = [scenario_A]
   \<and> localStorage (fst (checkAlarms quiet_env 35105000 [scenario_A, second_alarm] armed))
        ''alarm_triggered_a1'' = Some ''true''
   \<and> localStorage (fst (checkAlarms quiet_env 35105000 [scenario_A, second_alarm] armed))
        ''userEmail'' = localStorage armed ''userEmail''"
proof -
  obtain st1 x where c: "checkAlarms quiet_env 35105000 [scenario_A, second_alarm] armed = (st1, x)"
    by (cases "checkAlarms quiet_env 35105000 [scenario_A, second_alarm] armed")
  note p = pass_frame [OF c]
  have a: "alarms st1 = [scenario_A]" using p by (simp add: armed_def)
  have "localStorage (fst (checkAlarms quiet_env 35105000 [scenario_A, second_alarm] armed))
      ''alarm_triggered_a1'' = Some ''true''"
    by (simp add: ev_defs ev2_defs)
  then have k: "localStorage st1 ''alarm_triggered_a1'' = Some ''true''"
    by (simp add: c)
  have "localStorage st1 ''userEmail'' = localStorage armed ''userEmail''"
  proof (rule ccontr)
    assume "localStorage st1 ''userEmail'' \<noteq> localStorage armed ''userEmail''"
    with p have "\<exists>a\<in>set [scenario_A, second_alarm]. ''userEmail'' = triggeredKey a" by blast
    then show False by (simp add: triggeredKey_def)
  qed
  with a k c show ?thesis by simp
qed

text \<open>
  Claim C10 as it is written fails for a key that is set to the empty string: the
  test of line 182 takes it as not fired, and the pass overwrites it.
\<close>

theorem pass_overwrites_empty_marker:
  "localStorage empty_marker (triggeredKey scenario_A) = Some ''''
   \<and> localStorage (fst (checkAlarms quiet_env 35105000 [scenario_A] empty_marker))
        (triggeredKey scenario_A) = Some ''true''"
  by (simp add: ev_defs ev2_defs)

section \<open>Arming, re-arming and stopping\<close>

lemma sync_pass:
  assumes "isAuthenticated st" and "new \<noteq> []"
  shows "(\<exists>st0. sync e now new st = checkAlarms e now new st0
            \<and> alarms st0 = new \<and> localStorage st0 = localStorage st \<and> trace st0 = trace st)
       \<and> (\<exists>ext. trace (fst (sync e now new st)) = trace st @ Call_checkAlarms now # ext)
       \<and> (no_throw e \<and> a \<in> set new \<and> alarm_due now a
            \<and> \<not> has_fired (localStorage st) (alarm_id a) \<longrightarrow>
          fanouts (alarm_id a) (fst (sync e now new st)) = fanouts (alarm_id a) st + 1)"
proof -
  let ?c = "monitoring_cleanup (st\<lparr>alarms := new\<rparr>)"
  let ?st0 = "(clear_current ?c)\<lparr>intervals := intervals (clear_current ?c) @ [(Suc (last_handle ?c), alarms ?c)],
          last_handle := Suc (last_handle ?c),
          alarmCheckIntervalRef := Some (Suc (last_handle ?c))\<rparr>"
  have eq: "sync e now new st = checkAlarms e now new ?st0"
    using assms
    by (simp add: sync_def monitoring_effect_def startAlarmMonitoring_eq monitoring_cleanup_def)
  have f0: "alarms ?st0 = new" "localStorage ?st0 = localStorage st" "trace ?st0 = trace st"
    by (simp_all add: monitoring_cleanup_def)
  have p1: "\<exists>st0. sync e now new st = checkAlarms e now new st0
            \<and> alarms st0 = new \<and> localStorage st0 = localStorage st \<and> trace st0 = trace st"
    using eq f0 by blast
  have p2: "\<exists>ext. trace (fst (sync e now new st)) = trace st @ Call_checkAlarms now # ext"
    using checkAlarms_trace[of e now new ?st0] by (simp only: eq f0)
  have fz: "fanouts (alarm_id a) ?st0 = fanouts (alarm_id a) st"
    by (simp add: fanouts_def f0)
  have p3: "fanouts (alarm_id a) (fst (sync e now new st)) = fanouts (alarm_id a) st + 1"
    if h: "no_throw e \<and> a \<in> set new \<and> alarm_due now a
            \<and> \<not> has_fired (localStorage st) (alarm_id a)"
  proof -
    have nf: "\<not> has_fired (localStorage ?st0) (alarm_id a)" using h by (simp only: f0) simp
    from checkAlarms_fires_once[of e a new now ?st0 "fst (checkAlarms e now new ?st0)"
        "snd (checkAlarms e now new ?st0)"] h nf
    have "fanouts (alarm_id a) (fst (checkAlarms e now new ?st0)) = fanouts (alarm_id a) ?st0 + 1"
      by simp
    then show ?thesis by (simp only: eq fz)
  qed
  from p1 p2 p3 show ?thesis by blast
qed

text \<open>
  Claim C5, as amended. A change of the alarm list to a non-empty list while the user
  is authenticated runs an evaluation pass over the new list at once, in the effect
  itself, on the store as it is. In that pass an alarm of the new list that is inside
  its window and unmarked gets its fan-out exactly once, when no call of the pass
  throws. A change to the empty list, or before a login, runs no pass: nothing is
  called and the store is as before.
\<close>

theorem sync_evaluates_at_once:
  "(isAuthenticated st \<and> new \<noteq> [] \<longrightarrow>
      (\<exists>st0. sync e now new st = checkAlarms e now new st0
            \<and> alarms st0 = new \<and> localStorage st0 = localStorage st \<and> trace st0 = trace st)
      \<and> (\<exists>ext. trace (fst (sync e now new st)) = trace st @ Call_checkAlarms now # ext)
      \<and> (no_throw e \<and> a \<in> set new \<and> alarm_due now a
            \<and> \<not> has_fired (localStorage st) (alarm_id a) \<longrightarrow>
          fanouts (alarm_id a) (fst (sync e now new st)) = fanouts (alarm_id a) st + 1))
   \<and> (\<not> (isAuthenticated st \<and> new \<noteq> []) \<longrightarrow>
      snd (sync e now new st) = None
      \<and> trace (fst (sync e now new st)) = trace st
      \<and> localStorage (fst (sync e now new st)) = localStorage st)"
proof (intro conjI impI)
  assume g: "\<not> (isAuthenticated st \<and> new \<noteq> [])"
  then have eq: "sync e now new st = (clear_current (st\<lparr>alarms := new\<rparr>), None)"
    by (auto simp: sync_def monitoring_effect_def monitoring_cleanup_def)
  show "snd (sync e now new st) = None" by (simp add: eq)
  show "trace (fst (sync e now new st)) = trace st" by (simp add: eq)
  show "localStorage (fst (sync e now new st)) = localStorage st" by (simp add: eq)
next
  assume g: "isAuthenticated st \<and> new \<noteq> []"
  then have h: "isAuthenticated st" "new \<noteq> []" by simp_all
  note p = sync_pass[OF h, of e now a]
  show "\<exists>st0. sync e now new st = checkAlarms e now new st0
            \<and> alarms st0 = new \<and> localStorage st0 = localStorage st \<and> trace st0 = trace st"
    using p by blast
  show "\<exists>ext. trace (fst (sync e now new st)) = trace st @ Call_checkAlarms now # ext"
    using p by blast
  assume "no_throw e \<and> a \<in> set new \<and> alarm_due now a
            \<and> \<not> has_fired (localStorage st) (alarm_id a)"
  with p show "fanouts (alarm_id a) (fst (sync e now new st)) = fanouts (alarm_id a) st + 1"
    by blast
qed

text \<open>
  Scenario D: the list is replaced at 09:45:05 by one that adds an alarm whose
  trigger instant (09:30:00) has passed and whose start is ahead; the pass that the
  change runs fires it.
\<close>

theorem sync_evaluates_at_once_scenario_D:
  "isAuthenticated armed \<and> [scenario_A, second_alarm] \<noteq> []
   \<and> no_throw quiet_env \<and> alarm_due 35105000 second_alarm
   \<and> \<not> has_fired (localStorage armed) ''b1''
   \<and> fanouts ''b1'' (fst (sync quiet_env 35105000 [scenario_A, second_alarm] armed)) = 1"
proof -
  have h1: "isAuthenticated armed" by (simp add: armed_def)
  have h2: "[scenario_A, second_alarm] \<noteq> []" by simp
  have nt: "no_throw quiet_env" by (simp add: ev_defs)
  have due: "alarm_due 35105000 second_alarm" by (simp add: ev_defs ev2_defs)
  have nf: "\<not> has_fired (localStorage armed) ''b1''" by (simp add: ev_defs)
  have id: "alarm_id second_alarm = ''b1''" by (simp add: second_alarm_def)
  have f: "fanouts ''b1'' armed = 0" by (simp add: ev_defs)
  from sync_evaluates_at_once [where st = armed and new = "[scenario_A, second_alarm]"
      and e = quiet_env and a = second_alarm and now = 35105000] h1 h2 nt due nf id f
  have "fanouts ''b1'' (fst (sync quiet_env 35105000 [scenario_A, second_alarm] armed)) = 1"
    by simp
  with h1 h2 nt due nf show ?thesis by simp
qed

text \<open>
  Claim C5 as it is written fails where the guard of line 58 is false: before a
  login a new list with a due, unmarked alarm runs no pass and fires nothing, and an
  empty list runs no pass.
\<close>

theorem sync_guard_counterexample:
  "alarm_due 35105000 scenario_A \<and> \<not> has_fired (localStorage logged_out) ''a1''
   \<and> trace (fst (sync quiet_env 35105000 [scenario_A] logged_out)) = []
   \<and> fanouts ''a1'' (fst (sync quiet_env 35105000 [scenario_A] logged_out)) = 0
   \<and> trace armed = [] \<and> trace (fst (sync quiet_env 35105000 [] armed)) = []"
  by (simp add: ev_defs ev3_defs)

text \<open>
  Claim C8. After any sequence of events from the initial state at most one interval
  runs. The cancel at the head of \<open>startAlarmMonitoring\<close> and the cleanup of the
  effect each leave none running, and \<open>startAlarmMonitoring\<close> leaves exactly the one
  it creates.
\<close>

theorem at_most_one_timer:
  "length (intervals (run evs (initial store))) \<le> 1
   \<and> intervals (clear_current (run evs (initial store))) = []
   \<and> intervals (monitoring_cleanup (run evs (initial store))) = []
   \<and> intervals (fst (startAlarmMonitoring e now (run evs (initial store))))
       = [(Suc (last_handle (run evs (initial store))), alarms (run evs (initial store)))]"
proof -
  let ?st = "run evs (initial store)"
  note inv = reachable_inv[of evs store]
  from startAlarmMonitoring_timer[OF inv, of e now "fst (startAlarmMonitoring e now ?st)"
      "snd (startAlarmMonitoring e now ?st)"]
  have "intervals (fst (startAlarmMonitoring e now ?st)) = [(Suc (last_handle ?st), alarms ?st)]"
    by simp
  with timer_inv_length[OF inv] timer_inv_clear[OF inv] show ?thesis
    by (simp add: monitoring_cleanup_def)
qed

text \<open>
  A login and three changes of the alarm list leave one interval, the third one
  created.
\<close>

theorem at_most_one_timer_rearmed:
  "intervals (run [SetAuth quiet_env 100 True, Sync quiet_env 200 [scenario_A],
                   Sync quiet_env 300 [scenario_A, second_alarm],
                   Sync quiet_env 400 [second_alarm]] (initial Map.empty))
     = [(3, [second_alarm])]
   \<and> length (intervals (run [SetAuth quiet_env 100 True, Sync quiet_env 200 [scenario_A],
                   Sync quiet_env 300 [scenario_A, second_alarm],
                   Sync quiet_env 400 [second_alarm]] (initial Map.empty))) \<le> 1"
proof -
  let ?evs = "[SetAuth quiet_env 100 True, Sync quiet_env 200 [scenario_A],
                   Sync quiet_env 300 [scenario_A, second_alarm],
                   Sync quiet_env 400 [second_alarm]]"
  have "intervals (run ?evs (initial Map.empty)) = [(3, [second_alarm])]"
    by (simp add: ev_defs ev2_defs)
  with at_most_one_timer [of ?evs Map.empty quiet_env 0] show ?thesis by simp
qed

text \<open>
  Claim C9 asks that an empty alarm set and a teardown cancel the running interval, so
  that no pass runs until the scheduler is armed again. The code cancels it in the
  cleanup of the effect (lines 62-66), and while React holds that cleanup the claim
  holds (\<open>stops_while_mounted\<close>). But the effect returns the cleanup only after
  \<open>startAlarmMonitoring\<close> has returned. Evaluated for Scenario A's alarm, loaded at
  09:45:05 where the \<^verbatim>\<open>Notification\<close> constructor throws: the interval has been created
  (line 163), the immediate pass (line 168) throws, no cleanup is returned; the
  teardown that follows cancels nothing, a later empty alarm list does nothing, and
  the tick at 09:45:15 runs a pass and fires the alarm again. Where nothing throws,
  the same teardown leaves no interval and the tick runs no pass.
\<close>

theorem teardown_after_throw_keeps_timer:
  "intervals (run [SetAuth quiet_env 100 True,
                   Sync constructor_throws_env 35105000 [scenario_A],
                   Teardown] (initial Map.empty)) = [(1, [scenario_A])]
   \<and> trace (run [SetAuth quiet_env 100 True,
                 Sync constructor_throws_env 35105000 [scenario_A],
                 Teardown,
                 Tick constructor_throws_env 35115000 1] (initial Map.empty))
       = [Call_checkAlarms 35105000, Call_triggerAlarm ''a1'', Audio_play,
          Toast_error ''Standup'' 15,
          Call_checkAlarms 35115000, Call_triggerAlarm ''a1'', Audio_play,
          Toast_error ''Standup'' 15]
   \<and> intervals (run [SetAuth quiet_env 100 True,
                     Sync constructor_throws_env 35105000 [scenario_A],
                     Sync quiet_env 35110000 []] (initial Map.empty)) = [(1, [scenario_A])]
   \<and> intervals (run [SetAuth quiet_env 100 True,
                     Sync quiet_env 35105000 [scenario_A],
                     Teardown] (initial Map.empty)) = []
   \<and> trace (run [SetAuth quiet_env 100 True,
                 Sync quiet_env 35105000 [scenario_A],
                 Teardown,
                 Tick quiet_env 35115000 1] (initial Map.empty))
       = [Call_checkAlarms 35105000, Call_triggerAlarm ''a1'', Audio_play,
          Toast_error ''Standup'' 15, New_Notification ''Standup'' 15]"
  by (simp add: ev_defs ev3_defs)

end
